theory Spec2Isabelle
  imports Main "HOL-Library.Word" "HOL-Library.Sublist"
begin

section \<open>Data shared by the components\<close>

text \<open>
  Go's \<open>int\<close> is a 64-bit two's complement integer on the platforms the tool is built
  for; \<open>+\<close> and \<open>*\<close> wrap around silently. Strings are byte sequences, indexed and
  sliced by byte, which is what \<open>string\<close> (a list of 8-bit characters) is.
\<close>

type_synonym go_int = "64 word"

text \<open>
  Errors are values. \<open>Err msg\<close> is an error created with a message or handed over by a
  library; \<open>Wrap msg e\<close> is \<open>fmt.Errorf(msg + ": %w", e)\<close>.
\<close>

datatype error = Err string | Wrap string error

section \<open>ParseDuration and isShort (internal/youtube/videos.go)\<close>

definition is_digit :: "char \<Rightarrow> bool" where
  "is_digit c \<longleftrightarrow> (48::nat) \<le> of_char c \<and> (of_char c :: nat) \<le> 57"

text \<open>The scan \<open>for i < len(d) && d[i] >= '0' && d[i] <= '9' { i++ }\<close>: the final \<open>i\<close>.\<close>

fun digit_run :: "string \<Rightarrow> nat" where
  "digit_run [] = 0"
| "digit_run (c # cs) = (if is_digit c then Suc (digit_run cs) else 0)"

text \<open>
  The accumulation \<open>val = val*10 + int(d[j]-'0')\<close> over the bytes \<open>d[0..i)\<close>; the
  subtraction is a byte subtraction, the rest is arithmetic on \<open>int\<close>.
\<close>

fun digits_val :: "go_int \<Rightarrow> string \<Rightarrow> go_int" where
  "digits_val val [] = val"
| "digits_val val (c # cs) = digits_val (val * 10 + ucast ((of_char c :: 8 word) - 48)) cs"

text \<open>
  The loop \<open>for len(d) > 0\<close> with its three variables. A unit byte other than
  \<open>H\<close>, \<open>M\<close>, \<open>S\<close> matches no case of the \<open>switch\<close>, and the loop goes on behind it.
\<close>

function parse_groups :: "go_int \<Rightarrow> go_int \<Rightarrow> go_int \<Rightarrow> string \<Rightarrow> go_int \<times> go_int \<times> go_int" where
  "parse_groups hours minutes seconds d =
     (if length d > 0 then
        (let i = digit_run d in
         if i = 0 \<or> i \<ge> length d then (hours, minutes, seconds)
         else
           (let val = digits_val 0 (take i d) in
            if d ! i = CHR ''H'' then parse_groups val minutes seconds (drop (i + 1) d)
            else if d ! i = CHR ''M'' then parse_groups hours val seconds (drop (i + 1) d)
            else if d ! i = CHR ''S'' then parse_groups hours minutes val (drop (i + 1) d)
            else parse_groups hours minutes seconds (drop (i + 1) d)))
      else (hours, minutes, seconds))"
  by pat_completeness auto
termination
  by (relation "measure (\<lambda>(h, m, s, d). length d)") auto

declare parse_groups.simps [simp del]

definition ParseDuration :: "string \<Rightarrow> go_int" where
  "ParseDuration duration =
     (if \<not> prefix ''PT'' duration then 0
      else (case parse_groups 0 0 0 (drop 2 duration) of
              (hours, minutes, seconds) \<Rightarrow> hours * 3600 + minutes * 60 + seconds))"

definition isShort :: "string \<Rightarrow> go_int \<Rightarrow> bool" where
  "isShort duration minDurationSeconds \<longleftrightarrow> ParseDuration duration <s minDurationSeconds"

subsection \<open>Vocabulary for stating what the parser computes\<close>

text \<open>
  A group is a digit run and the byte behind it. \<open>render\<close> writes groups out, \<open>dec\<close> is
  the number a digit run denotes, \<open>unit_seconds\<close> the weight of a unit byte (0 for a
  byte that is no unit), \<open>total\<close> the weighted sum of the groups, \<open>units\<close> the unit
  bytes of the groups in order.
\<close>

type_synonym group = "string \<times> char"

definition is_group :: "group \<Rightarrow> bool" where
  "is_group g \<longleftrightarrow> fst g \<noteq> [] \<and> list_all is_digit (fst g) \<and> \<not> is_digit (snd g)"

fun render :: "group list \<Rightarrow> string" where
  "render [] = []"
| "render ((ds, u) # gs) = ds @ u # render gs"

fun dec_from :: "nat \<Rightarrow> string \<Rightarrow> nat" where
  "dec_from n [] = n"
| "dec_from n (c # cs) = dec_from (n * 10 + (of_char c - 48)) cs"

definition dec :: "string \<Rightarrow> nat" where
  "dec ds = dec_from 0 ds"

definition unit_seconds :: "char \<Rightarrow> nat" where
  "unit_seconds u =
     (if u = CHR ''H'' then 3600 else if u = CHR ''M'' then 60 else if u = CHR ''S'' then 1 else 0)"

fun total :: "group list \<Rightarrow> nat" where
  "total [] = 0"
| "total ((ds, u) # gs) = dec ds * unit_seconds u + total gs"

definition units :: "group list \<Rightarrow> char list" where
  "units gs = filter (\<lambda>u. unit_seconds u \<noteq> 0) (map snd gs)"

text \<open>Where the loop stops: the rest does not start with a digit, or is digits only.\<close>

definition stops :: "string \<Rightarrow> bool" where
  "stops t \<longleftrightarrow> digit_run t = 0 \<or> length t \<le> digit_run t"

text \<open>
  The parser assigns (\<open>hours = val\<close>), it does not add. \<open>last_of u gs v\<close> is the number
  of the last group of \<open>gs\<close> with the byte \<open>u\<close>, and \<open>v\<close> when there is none;
  \<open>counted\<close> weighs the last hours, minutes and seconds of the groups.
\<close>

fun last_of :: "char \<Rightarrow> group list \<Rightarrow> nat \<Rightarrow> nat" where
  "last_of u [] v = v"
| "last_of u ((ds, u') # gs) v = last_of u gs (if u' = u then dec ds else v)"

definition counted :: "group list \<Rightarrow> nat" where
  "counted gs = last_of (CHR ''H'') gs 0 * 3600 + last_of (CHR ''M'') gs 0 * 60
                  + last_of (CHR ''S'') gs 0"

section \<open>SanitizeFilename (internal/youtube/transcripts.go, and main.go)\<close>

text \<open>
  The character class \<open>[<>:"/\\|?*]\<close>. The pattern matches single ASCII bytes only, so
  \<open>ReplaceAllString\<close> copies every other byte as it is; \<open>strings.Trim\<close> with an ASCII
  cutset works on bytes as well.
\<close>

definition reserved :: "char \<Rightarrow> bool" where
  "reserved c \<longleftrightarrow> c \<in> {CHR ''<'', CHR ''>'', CHR '':'', CHR 0x22, CHR ''/'', CHR 0x5C,
                        CHR ''|'', CHR ''?'', CHR ''*''}"

definition ReplaceAllString :: "string \<Rightarrow> string" where
  "ReplaceAllString filename = map (\<lambda>c. if reserved c then CHR ''_'' else c) filename"

definition cutset :: "char \<Rightarrow> bool" where
  "cutset c \<longleftrightarrow> c = CHR '' '' \<or> c = CHR ''.''"

definition Trim :: "string \<Rightarrow> string" where
  "Trim s = rev (dropWhile cutset (rev (dropWhile cutset s)))"

definition SanitizeFilename :: "string \<Rightarrow> string" where
  "SanitizeFilename filename =
     (let sanitized = ReplaceAllString filename;
          sanitized = (if length sanitized > 100 then take 100 sanitized else sanitized)
      in Trim sanitized)"

section \<open>ListVideos (internal/youtube/videos.go)\<close>

text \<open>
  The records of the remote API, with the parts the calls request. \<open>VideoInfo\<close> is the
  summary the aggregator builds.
\<close>

record PlaylistItem =
  Snippet_ResourceId_VideoId :: string

record PlaylistItemListResponse =
  Items :: "PlaylistItem list"
  NextPageToken :: string

record Video =
  Video_Id :: string
  Snippet_Title :: string
  Snippet_PublishedAt :: string
  Statistics_ViewCount :: "64 word"
  ContentDetails_Duration :: string

record Channel =
  Channel_Id :: string
  RelatedPlaylists_Uploads :: string

record VideoInfo =
  VideoID :: string
  Title :: string
  ViewCount :: "64 word"
  Date :: string

text \<open>
  The remote service answers each request with an error or a response. The calls a run
  makes are recorded in order, so that a statement can say which calls were made.
\<close>

record Service =
  Channels_List_Mine :: "error + Channel list"
  Channels_List_Id :: "string \<Rightarrow> error + Channel list"
  PlaylistItems_List :: "string \<Rightarrow> string \<Rightarrow> error + PlaylistItemListResponse"
  Videos_List :: "string \<Rightarrow> error + Video list"

datatype api_call =
    ChannelsMine
  | ChannelsById string
  | PlaylistItemsPage string string
  | VideosById string

fun is_page_call :: "api_call \<Rightarrow> bool" where
  "is_page_call (PlaylistItemsPage pl tok) = True"
| "is_page_call _ = False"

fun is_videos_call :: "api_call \<Rightarrow> bool" where
  "is_videos_call (VideosById ids) = True"
| "is_videos_call _ = False"

fun Join :: "string list \<Rightarrow> string \<Rightarrow> string" where
  "Join [] sep = []"
| "Join [x] sep = x"
| "Join (x # y # ys) sep = x @ sep @ Join (y # ys) sep"

definition getAuthenticatedChannelID :: "Service \<Rightarrow> error + string" where
  "getAuthenticatedChannelID svc =
     (case Channels_List_Mine svc of
        Inl err \<Rightarrow> Inl (Wrap ''error retrieving user's channel'' err)
      | Inr [] \<Rightarrow> Inl (Err ''no channel found for authenticated user'')
      | Inr (c # cs) \<Rightarrow> Inr (Channel_Id c))"

definition getUploadsPlaylistID :: "Service \<Rightarrow> string \<Rightarrow> error + string" where
  "getUploadsPlaylistID svc channelID =
     (case Channels_List_Id svc channelID of
        Inl err \<Rightarrow> Inl (Wrap ''error retrieving channel details'' err)
      | Inr [] \<Rightarrow> Inl (Err (''channel '' @ channelID @ '' not found''))
      | Inr (c # cs) \<Rightarrow> Inr (RelatedPlaylists_Uploads c))"

definition to_info :: "Video \<Rightarrow> VideoInfo" where
  "to_info video =
     \<lparr>VideoID = Video_Id video, Title = Snippet_Title video,
      ViewCount = Statistics_ViewCount video, Date = Snippet_PublishedAt video\<rparr>"

text \<open>The loop over \<open>videosResponse.Items\<close>: a short video is skipped, any other appended.\<close>

fun collect_videos :: "go_int \<Rightarrow> Video list \<Rightarrow> VideoInfo list \<Rightarrow> VideoInfo list" where
  "collect_videos minDurationSeconds [] videos = videos"
| "collect_videos minDurationSeconds (video # items) videos =
     (if isShort (ContentDetails_Duration video) minDurationSeconds
      then collect_videos minDurationSeconds items videos
      else collect_videos minDurationSeconds items (videos @ [to_info video]))"

text \<open>
  One pass of the \<open>for\<close> loop: it returns from \<open>ListVideos\<close> (with an error, or at the
  \<open>break\<close> with the videos), or goes on with the next cursor.
\<close>

datatype loop_step =
    Return "(error + VideoInfo list) \<times> api_call list"
  | Continue string "VideoInfo list" "api_call list"

definition loop_body ::
  "Service \<Rightarrow> string \<Rightarrow> go_int \<Rightarrow> string \<Rightarrow> VideoInfo list \<Rightarrow> api_call list \<Rightarrow> loop_step" where
  "loop_body svc uploadsPlaylistID minDurationSeconds nextPageToken videos calls =
     (case PlaylistItems_List svc uploadsPlaylistID nextPageToken of
        Inl err \<Rightarrow>
          Return (Inl (Wrap ''error retrieving playlist items'' err),
                  calls @ [PlaylistItemsPage uploadsPlaylistID nextPageToken])
      | Inr playlistResponse \<Rightarrow>
          (let calls1 = calls @ [PlaylistItemsPage uploadsPlaylistID nextPageToken];
               videoIDs = map Snippet_ResourceId_VideoId (Items playlistResponse)
           in if length videoIDs > 0 then
                (case Videos_List svc (Join videoIDs '','') of
                   Inl err \<Rightarrow>
                     Return (Inl (Wrap ''error retrieving video statistics'' err),
                             calls1 @ [VideosById (Join videoIDs '','')])
                 | Inr items \<Rightarrow>
                     (if NextPageToken playlistResponse = []
                      then Return (Inr (collect_videos minDurationSeconds items videos),
                                   calls1 @ [VideosById (Join videoIDs '','')])
                      else Continue (NextPageToken playlistResponse)
                                    (collect_videos minDurationSeconds items videos)
                                    (calls1 @ [VideosById (Join videoIDs '','')])))
              else if NextPageToken playlistResponse = [] then Return (Inr videos, calls1)
              else Continue (NextPageToken playlistResponse) videos calls1))"

text \<open>
  The loop ends only when a page comes without a cursor, so it need not end: \<open>None\<close>
  is a run that goes on for ever.
\<close>

partial_function (option) list_loop ::
  "Service \<Rightarrow> string \<Rightarrow> go_int \<Rightarrow> string \<Rightarrow> VideoInfo list \<Rightarrow> api_call list
     \<Rightarrow> ((error + VideoInfo list) \<times> api_call list) option" where
  "list_loop svc uploadsPlaylistID minDurationSeconds nextPageToken videos calls =
     (case loop_body svc uploadsPlaylistID minDurationSeconds nextPageToken videos calls of
        Return r \<Rightarrow> Some r
      | Continue tok videos' calls' \<Rightarrow>
          list_loop svc uploadsPlaylistID minDurationSeconds tok videos' calls')"

definition ListVideos ::
  "Service \<Rightarrow> string \<Rightarrow> go_int \<Rightarrow> ((error + VideoInfo list) \<times> api_call list) option" where
  "ListVideos svc channelID minDurationSeconds =
     (case (if channelID = [] then (getAuthenticatedChannelID svc, [ChannelsMine])
            else (Inr channelID, [])) of
        (Inl err, calls) \<Rightarrow> Some (Inl err, calls)
      | (Inr channelID', calls) \<Rightarrow>
          (case getUploadsPlaylistID svc channelID' of
             Inl err \<Rightarrow> Some (Inl err, calls @ [ChannelsById channelID'])
           | Inr uploadsPlaylistID \<Rightarrow>
               list_loop svc uploadsPlaylistID minDurationSeconds [] []
                 (calls @ [ChannelsById channelID'])))"

text \<open>
  The variables of the loop at the start of its pass number \<open>n + 1\<close>, when the run gets
  that far.
\<close>

fun loop_state ::
  "Service \<Rightarrow> string \<Rightarrow> go_int \<Rightarrow> nat \<Rightarrow> string \<times> VideoInfo list \<times> api_call list
     \<Rightarrow> (string \<times> VideoInfo list \<times> api_call list) option" where
  "loop_state svc pl minD 0 st = Some st"
| "loop_state svc pl minD (Suc n) (tok, videos, calls) =
     (case loop_body svc pl minD tok videos calls of
        Return r \<Rightarrow> None
      | Continue tok' videos' calls' \<Rightarrow> loop_state svc pl minD n (tok', videos', calls'))"

text \<open>The request of a pass fails: the page fetch, or the detail fetch for its items.\<close>

definition fetch_fails :: "Service \<Rightarrow> string \<Rightarrow> string \<Rightarrow> bool" where
  "fetch_fails svc pl tok =
     (case PlaylistItems_List svc pl tok of
        Inl err \<Rightarrow> True
      | Inr playlistResponse \<Rightarrow>
          Items playlistResponse \<noteq> [] \<and>
          isl (Videos_List svc (Join (map Snippet_ResourceId_VideoId (Items playlistResponse)) '','')))"

subsection \<open>Vocabulary for stating what ListVideos does\<close>

text \<open>
  The identifiers a page lists, the detail call the loop makes for a page (none for a page
  without items) and its answer, the calls of the two lookups before the loop, and the
  test a video passes to be kept.
\<close>

definition page_ids :: "PlaylistItemListResponse \<Rightarrow> string list" where
  "page_ids p = map Snippet_ResourceId_VideoId (Items p)"

definition details_calls :: "PlaylistItemListResponse \<Rightarrow> api_call list" where
  "details_calls p = (if Items p = [] then [] else [VideosById (Join (page_ids p) '','')])"

definition page_details :: "Service \<Rightarrow> PlaylistItemListResponse \<Rightarrow> error + Video list" where
  "page_details svc p = (if Items p = [] then Inr [] else Videos_List svc (Join (page_ids p) '',''))"

definition lookup_calls :: "string \<Rightarrow> string \<Rightarrow> api_call list" where
  "lookup_calls channelID cid = (if channelID = [] then [ChannelsMine] else []) @ [ChannelsById cid]"

definition long_enough :: "go_int \<Rightarrow> Video \<Rightarrow> bool" where
  "long_enough minDurationSeconds video \<longleftrightarrow>
     \<not> isShort (ContentDetails_Duration video) minDurationSeconds"

subsection \<open>Example services\<close>

text \<open>
  A channel with three uploads on two pages; the same channel with a detail call that fails
  for the second page; and a channel without uploads.
\<close>

definition demo_channel :: Channel where
  "demo_channel = \<lparr>Channel_Id = ''UC1'', RelatedPlaylists_Uploads = ''UU1''\<rparr>"

definition demo_video :: "string \<Rightarrow> string \<Rightarrow> Video" where
  "demo_video vid duration =
     \<lparr>Video_Id = vid, Snippet_Title = ''title of '' @ vid, Snippet_PublishedAt = ''2024-01-01T00:00:00Z'',
      Statistics_ViewCount = 7, ContentDetails_Duration = duration\<rparr>"

definition demo_page1 :: PlaylistItemListResponse where
  "demo_page1 =
     \<lparr>Items = [\<lparr>Snippet_ResourceId_VideoId = ''a''\<rparr>, \<lparr>Snippet_ResourceId_VideoId = ''b''\<rparr>],
      NextPageToken = ''t2''\<rparr>"

definition demo_page2 :: PlaylistItemListResponse where
  "demo_page2 = \<lparr>Items = [\<lparr>Snippet_ResourceId_VideoId = ''c''\<rparr>], NextPageToken = []\<rparr>"

definition demo_videos1 :: "Video list" where
  "demo_videos1 = [demo_video ''a'' ''PT10M'', demo_video ''b'' ''PT30S'']"

definition demo_videos2 :: "Video list" where
  "demo_videos2 = [demo_video ''c'' ''PT1M'']"

definition two_page_service :: Service where
  "two_page_service =
     \<lparr>Channels_List_Mine = Inr [demo_channel],
      Channels_List_Id = (\<lambda>cid. if cid = ''UC1'' then Inr [demo_channel] else Inr []),
      PlaylistItems_List = (\<lambda>pl tok.
        if pl = ''UU1'' \<and> tok = [] then Inr demo_page1
        else if pl = ''UU1'' \<and> tok = ''t2'' then Inr demo_page2
        else Inl (Err ''not found'')),
      Videos_List = (\<lambda>ids.
        if ids = ''a,b'' then Inr demo_videos1
        else if ids = ''c'' then Inr demo_videos2
        else Inl (Err ''bad request''))\<rparr>"

definition broken_service :: Service where
  "broken_service = two_page_service\<lparr>Videos_List := (\<lambda>ids.
        if ids = ''a,b'' then Inr demo_videos1 else Inl (Err ''quota exceeded''))\<rparr>"

definition empty_service :: Service where
  "empty_service = two_page_service\<lparr>PlaylistItems_List := (\<lambda>pl tok.
        Inr \<lparr>Items = [], NextPageToken = []\<rparr>)\<rparr>"

section \<open>The credential lifecycle (internal/youtube/client.go)\<close>

text \<open>
  A token as the OAuth library keeps it; \<open>Expiry\<close> is a point in time. The token file
  either decodes to a token or does not; a path without a file cannot be opened.
\<close>

record Token =
  AccessToken :: string
  RefreshToken :: string
  TokenType :: string
  Expiry :: int

datatype file_content = Undecodable | Encoded Token

text \<open>
  What a run changes: the files, the number of browser authorization flows that were
  run, and the paths that were opened for writing, in order.
\<close>

record world =
  files :: "string \<Rightarrow> file_content option"
  flows :: nat
  written :: "string list"

text \<open>
  What a run meets: the clock, the answer of the token endpoint to a silent refresh
  (\<open>config.TokenSource(ctx, tok).Token()\<close>) and to a code exchange, the \<open>code\<close>
  parameters of the redirect requests that reach the local listener, in the order in which
  their handlers reach the send on \<open>codeChan\<close> (the empty string for a request without
  \<open>code\<close>), and the outcome of each step of writing a file.
\<close>

record env =
  Now :: int
  TokenSource_Token :: "Token \<Rightarrow> error + Token"
  Exchange :: "string \<Rightarrow> error + Token"
  requests :: "string list"
  MkdirAll :: "string \<Rightarrow> error option"
  OpenFile :: "string \<Rightarrow> error option"
  Encode :: "Token \<Rightarrow> error option"

datatype http_Client = Client Token

definition tokenFromFile :: "world \<Rightarrow> string \<Rightarrow> error + Token" where
  "tokenFromFile w file =
     (case files w file of
        None \<Rightarrow> Inl (Err ''open'')
      | Some Undecodable \<Rightarrow> Inl (Err ''decode'')
      | Some (Encoded tok) \<Rightarrow> Inr tok)"

text \<open>
  \<open>saveToken\<close> opens the file with \<open>O_TRUNC\<close>: once it is open the old content is
  gone, and a failing \<open>Encode\<close> leaves a file that does not decode.
\<close>

definition saveToken :: "env \<Rightarrow> world \<Rightarrow> string \<Rightarrow> Token \<Rightarrow> error option \<times> world" where
  "saveToken e w path token =
     (case MkdirAll e path of
        Some err \<Rightarrow> (Some (Wrap ''unable to create token directory'' err), w)
      | None \<Rightarrow>
          (case OpenFile e path of
             Some err \<Rightarrow> (Some (Wrap ''unable to cache oauth token'' err), w)
           | None \<Rightarrow>
               (case Encode e token of
                  Some err \<Rightarrow>
                    (Some err, w\<lparr>files := (files w)(path \<mapsto> Undecodable),
                                 written := written w @ [path]\<rparr>)
                | None \<Rightarrow>
                    (None, w\<lparr>files := (files w)(path \<mapsto> Encoded token),
                              written := written w @ [path]\<rparr>))))"

subsection \<open>The callback listener of getTokenFromWeb\<close>

text \<open>
  The handler of the listener answers the browser and sends on \<open>codeChan\<close>: the code
  when there is one, the empty string otherwise. The result is the page and the value sent.
\<close>

definition handler :: "string \<Rightarrow> string \<times> string" where
  "handler code =
     (if code \<noteq> [] then (''Authorization successful! You can close this tab.'', code)
      else (''Authorization failed: no code received'', []))"

text \<open>
  \<open>codeChan\<close> is unbuffered and \<open>getTokenFromWeb\<close> receives from it once. The send of
  the first handler meets that receive; the send of every later handler that still runs
  finds no receiver and blocks. \<open>authCode\<close> is what the caller received, \<open>deliveries\<close> counts the
  completed sends, \<open>blocked\<close> holds the values of the sends that wait.
\<close>

record listener =
  authCode :: "string option"
  deliveries :: nat
  blocked :: "string list"

definition listening :: listener where
  "listening = \<lparr>authCode = None, deliveries = 0, blocked = []\<rparr>"

definition serve :: "listener \<Rightarrow> string \<Rightarrow> listener" where
  "serve st code =
     (if authCode st = None
      then st\<lparr>authCode := Some (snd (handler code)), deliveries := deliveries st + 1\<rparr>
      else st\<lparr>blocked := blocked st @ [snd (handler code)]\<rparr>)"

definition listen :: "string list \<Rightarrow> listener" where
  "listen reqs = foldl serve listening reqs"

text \<open>
  \<open>getTokenFromWeb\<close> waits for the code without a timeout: with no request it never
  returns (\<open>None\<close>).
\<close>

definition getTokenFromWeb :: "env \<Rightarrow> world \<Rightarrow> ((error + Token) \<times> world) option" where
  "getTokenFromWeb e w =
     (case authCode (listen (requests e)) of
        None \<Rightarrow> None
      | Some code \<Rightarrow>
          (if code = [] then Some (Inl (Err ''authorization failed''), w\<lparr>flows := flows w + 1\<rparr>)
           else (case Exchange e code of
                   Inl err \<Rightarrow>
                     Some (Inl (Wrap ''unable to retrieve token from web'' err),
                           w\<lparr>flows := flows w + 1\<rparr>)
                 | Inr tok \<Rightarrow> Some (Inr tok, w\<lparr>flows := flows w + 1\<rparr>))))"

subsection \<open>getHTTPClient\<close>

text \<open>The two places where \<open>getHTTPClient\<close> authorizes in the browser and saves.\<close>

definition authorize_and_save ::
  "env \<Rightarrow> world \<Rightarrow> string \<Rightarrow> ((error + http_Client) \<times> world) option" where
  "authorize_and_save e w tokenPath =
     (case getTokenFromWeb e w of
        None \<Rightarrow> None
      | Some (Inl err, w1) \<Rightarrow> Some (Inl err, w1)
      | Some (Inr tok, w1) \<Rightarrow>
          (case saveToken e w1 tokenPath tok of
             (Some err, w2) \<Rightarrow> Some (Inl err, w2)
           | (None, w2) \<Rightarrow> Some (Inr (Client tok), w2)))"

definition getHTTPClient ::
  "env \<Rightarrow> world \<Rightarrow> string \<Rightarrow> ((error + http_Client) \<times> world) option" where
  "getHTTPClient e w tokenPath =
     (case tokenFromFile w tokenPath of
        Inl err \<Rightarrow> authorize_and_save e w tokenPath
      | Inr tok \<Rightarrow>
          (if Expiry tok < Now e then
             (case TokenSource_Token e tok of
                Inl err \<Rightarrow> authorize_and_save e w tokenPath
              | Inr newTok \<Rightarrow>
                  (if AccessToken newTok \<noteq> AccessToken tok then
                     (case saveToken e w tokenPath newTok of
                        (Some err, w1) \<Rightarrow> Some (Inl err, w1)
                      | (None, w1) \<Rightarrow> Some (Inr (Client newTok), w1))
                   else Some (Inr (Client tok), w)))
           else Some (Inr (Client tok), w)))"

subsection \<open>Example environments\<close>

text \<open>
  A stored token that has expired, and runs that meet a token endpoint which refuses the
  refresh: one where the browser comes back with the code \<open>ABC\<close>, one where a request
  without code comes first, one where the token file cannot be opened for writing, one
  where writing it fails, one where more requests follow the first, and one where no request
  arrives. In the last two environments the refresh succeeds, with the same or with a new
  access token.
\<close>

definition stored_token :: Token where
  "stored_token = \<lparr>AccessToken = ''old'', RefreshToken = ''r1'', TokenType = ''Bearer'', Expiry = 100\<rparr>"

definition fresh_token :: Token where
  "fresh_token = \<lparr>AccessToken = ''new'', RefreshToken = ''r2'', TokenType = ''Bearer'', Expiry = 5000\<rparr>"

definition demo_world :: world where
  "demo_world = \<lparr>files = [''token.json'' \<mapsto> Encoded stored_token], flows = 0, written = []\<rparr>"

definition demo_env :: env where
  "demo_env =
     \<lparr>Now = 1000,
      TokenSource_Token = (\<lambda>tok. Inl (Err ''invalid_grant'')),
      Exchange = (\<lambda>code. if code = ''ABC'' then Inr fresh_token else Inl (Err ''bad code'')),
      requests = [''ABC''],
      MkdirAll = (\<lambda>path. None),
      OpenFile = (\<lambda>path. None),
      Encode = (\<lambda>tok. None)\<rparr>"

definition denied_env :: env where
  "denied_env = demo_env\<lparr>requests := ['''', ''ABC'']\<rparr>"

definition readonly_env :: env where
  "readonly_env = demo_env\<lparr>OpenFile := (\<lambda>path. Some (Err ''permission denied''))\<rparr>"

definition disk_full_env :: env where
  "disk_full_env = demo_env\<lparr>Encode := (\<lambda>tok. Some (Err ''no space left on device''))\<rparr>"

definition busy_env :: env where
  "busy_env = demo_env\<lparr>requests := [''ABC'', ''XYZ'', ''ABC'']\<rparr>"

definition silent_env :: env where
  "silent_env = demo_env\<lparr>requests := []\<rparr>"

definition renewing_env :: env where
  "renewing_env = demo_env\<lparr>TokenSource_Token := (\<lambda>tok. Inr (tok\<lparr>Expiry := 5000\<rparr>))\<rparr>"

definition rotating_env :: env where
  "rotating_env = demo_env\<lparr>TokenSource_Token := (\<lambda>tok. Inr fresh_token)\<rparr>"

section \<open>The duration parser\<close>

subsection \<open>Reading one group\<close>

lemma ucast_small: "j < 256 \<Longrightarrow> (ucast (of_nat j :: 8 word) :: go_int) = of_nat j"
  by (simp add: unsigned_of_nat take_bit_nat_eq_self)

lemma digit_byte:
  assumes "is_digit c"
  shows "(ucast ((of_char c :: 8 word) - 48) :: go_int) = of_nat (of_char c - 48)"
proof -
  define k :: nat where "k = of_char c"
  define j :: nat where "j = k - 48"
  from assms have "48 \<le> k" "k \<le> 57" by (simp_all add: is_digit_def k_def)
  then have j: "k = j + 48" "j < 256" unfolding j_def by linarith+
  have "(of_char c :: 8 word) = of_nat k"
    by (simp add: of_nat_of_char k_def)
  also have "\<dots> = of_nat j + 48"
    by (simp add: j)
  finally have "(of_char c :: 8 word) - 48 = of_nat j"
    by simp
  then have "(ucast ((of_char c :: 8 word) - 48) :: go_int) = of_nat j"
    using j by (simp add: ucast_small)
  then show ?thesis
    by (simp add: j_def k_def)
qed

lemma digit_run_group:
  "list_all is_digit ds \<Longrightarrow> \<not> is_digit u \<Longrightarrow> digit_run (ds @ u # r) = length ds"
  by (induction ds) simp_all

lemma digits_val_dec_from:
  "list_all is_digit ds \<Longrightarrow> digits_val (of_nat n) ds = of_nat (dec_from n ds)"
proof (induction ds arbitrary: n)
  case Nil
  then show ?case by simp
next
  case (Cons c cs)
  from Cons.prems have c: "is_digit c" and cs: "list_all is_digit cs" by simp_all
  have "digits_val (of_nat n) (c # cs) = digits_val (of_nat (n * 10 + (of_char c - 48))) cs"
    by (simp add: digit_byte [OF c])
  also have "\<dots> = of_nat (dec_from (n * 10 + (of_char c - 48)) cs)"
    by (rule Cons.IH [OF cs])
  finally show ?case by simp
qed

lemma digits_val_dec: "list_all is_digit ds \<Longrightarrow> digits_val 0 ds = of_nat (dec ds)"
  using digits_val_dec_from [of ds 0] by (simp add: dec_def)

lemma parse_groups_stops: "stops t \<Longrightarrow> parse_groups h m s t = (h, m, s)"
  by (subst parse_groups.simps) (auto simp: stops_def Let_def)

lemma parse_groups_group:
  assumes "is_group (ds, u)"
  shows "parse_groups h m s (ds @ u # r) =
           parse_groups (if u = CHR ''H'' then of_nat (dec ds) else h)
                        (if u = CHR ''M'' then of_nat (dec ds) else m)
                        (if u = CHR ''S'' then of_nat (dec ds) else s) r"
proof -
  from assms have ds: "ds \<noteq> []" "list_all is_digit ds" "\<not> is_digit u"
    by (simp_all add: is_group_def)
  then have i: "digit_run (ds @ u # r) = length ds"
    by (simp add: digit_run_group)
  from ds have len: "0 < length ds" by simp
  show ?thesis
    by (subst parse_groups.simps) (use ds len in \<open>simp add: i Let_def digits_val_dec\<close>)
qed

lemma units_Cons:
  "units ((ds, u) # gs) = (if unit_seconds u \<noteq> 0 then u # units gs else units gs)"
  by (simp add: units_def)

lemma unit_seconds_cases:
  "unit_seconds u \<noteq> 0 \<longleftrightarrow> u = CHR ''H'' \<or> u = CHR ''M'' \<or> u = CHR ''S''"
  by (simp add: unit_seconds_def)

lemma sint_of_nat_small: "n < 2 ^ 63 \<Longrightarrow> sint (of_nat n :: go_int) = int n"
  by (simp add: signed_of_nat signed_take_bit_int_eq_self)

lemma ParseDuration_PT: "ParseDuration (''PT'' @ d) = (case parse_groups 0 0 0 d of
              (hours, minutes, seconds) \<Rightarrow> hours * 3600 + minutes * 60 + seconds)"
  by (simp add: ParseDuration_def)

subsection \<open>The groups behind the marker\<close>

lemma parse_groups_render_last:
  assumes "list_all is_group gs" "stops t"
  shows "parse_groups (of_nat h) (of_nat m) (of_nat s) (render gs @ t) =
           (of_nat (last_of (CHR ''H'') gs h), of_nat (last_of (CHR ''M'') gs m),
            of_nat (last_of (CHR ''S'') gs s))"
  using assms(1)
proof (induction gs arbitrary: h m s)
  case Nil
  with assms(2) show ?case by (simp add: parse_groups_stops)
next
  case (Cons g gs)
  obtain ds u where g: "g = (ds, u)" by (cases g)
  from Cons.prems g have grp: "is_group (ds, u)" and rest: "list_all is_group gs"
    by simp_all
  have "parse_groups (of_nat h) (of_nat m) (of_nat s) (render (g # gs) @ t) =
          parse_groups (of_nat (if u = CHR ''H'' then dec ds else h))
                       (of_nat (if u = CHR ''M'' then dec ds else m))
                       (of_nat (if u = CHR ''S'' then dec ds else s)) (render gs @ t)"
    using parse_groups_group [OF grp] by (simp add: g)
  also have "\<dots> = (of_nat (last_of (CHR ''H'') (g # gs) h), of_nat (last_of (CHR ''M'') (g # gs) m),
            of_nat (last_of (CHR ''S'') (g # gs) s))"
    unfolding Cons.IH [OF rest] by (simp add: g)
  finally show ?case .
qed

lemma ParseDuration_counted:
  assumes "list_all is_group gs" "stops t"
  shows "ParseDuration (''PT'' @ render gs @ t) = of_nat (counted gs)"
proof -
  have "parse_groups 0 0 0 (render gs @ t) =
          (of_nat (last_of (CHR ''H'') gs 0), of_nat (last_of (CHR ''M'') gs 0),
           of_nat (last_of (CHR ''S'') gs 0))"
    using parse_groups_render_last [OF assms, of 0 0 0] by simp
  then show ?thesis
    unfolding ParseDuration_PT by (simp add: counted_def)
qed

lemma last_of_total:
  assumes "distinct (units gs)"
  shows "last_of (CHR ''H'') gs h * 3600 + last_of (CHR ''M'') gs m * 60 + last_of (CHR ''S'') gs s =
         total gs
           + (if CHR ''H'' \<in> set (units gs) then 0 else h * 3600)
           + (if CHR ''M'' \<in> set (units gs) then 0 else m * 60)
           + (if CHR ''S'' \<in> set (units gs) then 0 else s)"
  using assms
proof (induction gs arbitrary: h m s)
  case Nil
  then show ?case by (simp add: units_def)
next
  case (Cons g gs)
  obtain ds u where g: "g = (ds, u)" by (cases g)
  from Cons.prems g have dist: "distinct (units gs)"
    by (simp add: units_Cons split: if_splits)
  from Cons.prems g have fresh: "unit_seconds u \<noteq> 0 \<Longrightarrow> u \<notin> set (units gs)"
    by (simp add: units_Cons split: if_splits)
  note IH = Cons.IH [OF dist]
  consider (H) "u = CHR ''H''" | (M) "u = CHR ''M''" | (S) "u = CHR ''S''"
    | (other) "unit_seconds u = 0"
    using unit_seconds_cases [of u] by blast
  then show ?case
  proof cases
    case H
    with fresh have "CHR ''H'' \<notin> set (units gs)" by (simp add: unit_seconds_def)
    with H show ?thesis
      by (simp add: g IH units_Cons unit_seconds_def)
  next
    case M
    with fresh have "CHR ''M'' \<notin> set (units gs)" by (simp add: unit_seconds_def)
    with M show ?thesis
      by (simp add: g IH units_Cons unit_seconds_def)
  next
    case S
    with fresh have "CHR ''S'' \<notin> set (units gs)" by (simp add: unit_seconds_def)
    with S show ?thesis
      by (simp add: g IH units_Cons unit_seconds_def)
  next
    case other
    then have "u \<noteq> CHR ''H''" "u \<noteq> CHR ''M''" "u \<noteq> CHR ''S''"
      by (auto simp: unit_seconds_def)
    with other show ?thesis
      by (simp add: g IH units_Cons)
  qed
qed

lemma counted_total: "distinct (units gs) \<Longrightarrow> counted gs = total gs"
  using last_of_total [of gs 0 0 0] by (simp add: counted_def)

lemma digit_run_digits: "list_all is_digit (take (digit_run d) d)"
  by (induction d) simp_all

lemma digit_run_stop: "digit_run d < length d \<Longrightarrow> \<not> is_digit (d ! digit_run d)"
  by (induction d) (simp_all split: if_splits)

lemma groups_exist: "\<exists>gs t. d = render gs @ t \<and> list_all is_group gs \<and> stops t"
proof (induction "length d" arbitrary: d rule: less_induct)
  case less
  define i where "i = digit_run d"
  show ?case
  proof (cases "i = 0 \<or> length d \<le> i")
    case True
    then have "stops d" by (simp add: stops_def i_def)
    then have "d = render [] @ d \<and> list_all is_group [] \<and> stops d" by simp
    then show ?thesis by blast
  next
    case False
    then have i: "0 < i" "i < length d" by simp_all
    define r where "r = drop (i + 1) d"
    have d: "d = take i d @ d ! i # r"
      using i by (simp add: r_def id_take_nth_drop)
    have grp: "is_group (take i d, d ! i)"
      using i digit_run_digits [of d] digit_run_stop [of d]
      by (auto simp: is_group_def i_def)
    have "length r < length d" using i by (simp add: r_def)
    from less [OF this] obtain gs t where
      r: "r = render gs @ t" "list_all is_group gs" "stops t" by blast
    have "d = render ((take i d, d ! i) # gs) @ t"
      using d r(1) by simp
    with grp r(2,3) have "d = render ((take i d, d ! i) # gs) @ t
        \<and> list_all is_group ((take i d, d ! i) # gs) \<and> stops t" by simp
    then show ?thesis by blast
  qed
qed

subsection \<open>What ParseDuration computes\<close>

text \<open>
  C1, as the code has it. Without the marker \<open>PT\<close> the result is 0. Every string behind
  the marker is a sequence of groups, each a digit run and one more byte, and a rest that
  does not start with a digit or is digits only; the parser reads the groups and ignores the
  rest. The last group with the byte \<open>H\<close> gives the hours, the last with \<open>M\<close> the
  minutes, the last with \<open>S\<close> the seconds, a group with any other byte gives nothing, and
  the result is hours times 3600 plus minutes times 60 plus seconds, as long as that is below
  \<open>2^63\<close>. When none of the units occurs twice this is the sum over the groups of digits
  times 3600, 60 or 1. The eight listed inputs give 0, 30, 300, 7200, 5445, 0, 0 and 0; the
  bare marker gives 0, \<open>PT1H2H\<close> gives 7200 and \<open>PT1H30\<close> gives 3600.
\<close>

theorem ParseDuration_groups:
  "(\<not> prefix ''PT'' s \<longrightarrow> sint (ParseDuration s) = 0)
   \<and> (\<exists>gs t. d = render gs @ t \<and> list_all is_group gs \<and> stops t)
   \<and> (list_all is_group gs \<and> stops t \<and> counted gs < 2 ^ 63
        \<longrightarrow> sint (ParseDuration (''PT'' @ render gs @ t)) = int (counted gs))
   \<and> (distinct (units gs) \<longrightarrow> counted gs = total gs)
   \<and> (list_all is_group gs \<and> distinct (units gs) \<and> stops t \<and> total gs < 2 ^ 63
        \<longrightarrow> sint (ParseDuration (''PT'' @ render gs @ t)) = int (total gs))
   \<and> sint (ParseDuration ''PT0S'') = 0
   \<and> sint (ParseDuration ''PT30S'') = 30
   \<and> sint (ParseDuration ''PT5M'') = 300
   \<and> sint (ParseDuration ''PT2H'') = 7200
   \<and> sint (ParseDuration ''PT1H30M45S'') = 5445
   \<and> sint (ParseDuration '''') = 0
   \<and> sint (ParseDuration ''P1D'') = 0
   \<and> sint (ParseDuration ''1H30M'') = 0
   \<and> sint (ParseDuration ''PT'') = 0
   \<and> sint (ParseDuration ''PT1H2H'') = 7200
   \<and> sint (ParseDuration ''PT1H30'') = 3600"
proof -
  have a: "\<not> prefix ''PT'' s \<longrightarrow> sint (ParseDuration s) = 0"
    by (simp add: ParseDuration_def)
  have b: "list_all is_group gs \<and> stops t \<and> counted gs < 2 ^ 63
        \<longrightarrow> sint (ParseDuration (''PT'' @ render gs @ t)) = int (counted gs)"
  proof (intro impI, elim conjE)
    assume h: "list_all is_group gs" "stops t" "counted gs < 2 ^ 63"
    have "ParseDuration (''PT'' @ render gs @ t) = of_nat (counted gs)"
      using h(1,2) by (rule ParseDuration_counted)
    with h(3) show "sint (ParseDuration (''PT'' @ render gs @ t)) = int (counted gs)"
      by (simp add: sint_of_nat_small)
  qed
  have c: "distinct (units gs) \<longrightarrow> counted gs = total gs"
    by (simp add: counted_total)
  have d: "list_all is_group gs \<and> distinct (units gs) \<and> stops t \<and> total gs < 2 ^ 63
        \<longrightarrow> sint (ParseDuration (''PT'' @ render gs @ t)) = int (total gs)"
    using b c by simp
  have e: "sint (ParseDuration ''PT0S'') = 0" "sint (ParseDuration ''PT30S'') = 30"
    "sint (ParseDuration ''PT5M'') = 300" "sint (ParseDuration ''PT2H'') = 7200"
    "sint (ParseDuration ''PT1H30M45S'') = 5445" "sint (ParseDuration '''') = 0"
    "sint (ParseDuration ''P1D'') = 0" "sint (ParseDuration ''1H30M'') = 0"
    "sint (ParseDuration ''PT'') = 0"
    "sint (ParseDuration ''PT1H2H'') = 7200" "sint (ParseDuration ''PT1H30'') = 3600"
    by (simp_all add: ParseDuration_def is_digit_def parse_groups.simps)
  from a groups_exist [of d] b c d e show ?thesis by blast
qed

theorem ParseDuration_groups_witness:
  "\<not> prefix ''PT'' ''1H30M'' \<and> sint (ParseDuration ''1H30M'') = 0
   \<and> list_all is_group [(''1'', CHR ''H''), (''2'', CHR ''H'')] \<and> stops ''30''
   \<and> counted [(''1'', CHR ''H''), (''2'', CHR ''H'')] = 7200
   \<and> sint (ParseDuration ''PT1H2H30'') = 7200
   \<and> list_all is_group [(''1'', CHR ''H''), (''30'', CHR ''M''), (''45'', CHR ''S'')]
   \<and> distinct (units [(''1'', CHR ''H''), (''30'', CHR ''M''), (''45'', CHR ''S'')])
   \<and> stops ''7''
   \<and> counted [(''1'', CHR ''H''), (''30'', CHR ''M''), (''45'', CHR ''S'')] = 5445
   \<and> total [(''1'', CHR ''H''), (''30'', CHR ''M''), (''45'', CHR ''S'')] = 5445
   \<and> sint (ParseDuration ''PT1H30M45S7'') = 5445"
  using ParseDuration_groups [of "''1H30M''" "[]" "[(''1'', CHR ''H''), (''2'', CHR ''H'')]" "''30''"]
    ParseDuration_groups [of "''1H30M''" "[]" "[(''1'', CHR ''H''), (''30'', CHR ''M''), (''45'', CHR ''S'')]" "''7''"]
  by (simp add: is_group_def is_digit_def units_def unit_seconds_def stops_def dec_def counted_def)

text \<open>
  The claim as the specification words it asks for the sum over all groups and for 0
  whenever a digit run has no unit behind it. The code keeps the last value of a unit, so
  \<open>PT1H2H\<close> is 7200 and not 10800, and at a digit run without unit it leaves the loop
  with what it has, so \<open>PT1H30\<close> is 3600 and not 0.
\<close>

theorem ParseDuration_sum_counterexample:
  "sint (ParseDuration ''PT1H2H'') = 7200
   \<and> sint (ParseDuration ''PT1H2H'') \<noteq> 1 * 3600 + 2 * 3600
   \<and> sint (ParseDuration ''PT1H30'') = 3600
   \<and> sint (ParseDuration ''PT1H30'') \<noteq> 0"
  by (simp add: ParseDuration_def is_digit_def parse_groups.simps)

text \<open>
  C7: the result is not always non-negative. \<open>val*10 + digit\<close> wraps around at
  \<open>2^63\<close>, so a run of nineteen digits can leave a negative number of seconds.
\<close>

theorem ParseDuration_negative:
  "sint (ParseDuration ''PT9223372036854775808S'') = - 9223372036854775808"
  by (simp add: ParseDuration_def is_digit_def parse_groups.simps)

section \<open>The filename sanitizer\<close>

lemma Trim_no_lead: "dropWhile cutset (Trim s) = Trim s"
proof -
  define ys where "ys = dropWhile cutset s"
  have ys: "dropWhile cutset ys = ys" by (simp add: ys_def)
  have split: "ys = Trim s @ rev (takeWhile cutset (rev ys))"
  proof -
    have "rev (takeWhile cutset (rev ys) @ dropWhile cutset (rev ys)) = ys"
      by (simp only: takeWhile_dropWhile_id rev_rev_ident)
    then have "rev (dropWhile cutset (rev ys)) @ rev (takeWhile cutset (rev ys)) = ys"
      by (simp only: rev_append)
    then show ?thesis by (simp only: Trim_def ys_def)
  qed
  show ?thesis
  proof (cases "Trim s")
    case Nil
    then show ?thesis by simp
  next
    case (Cons c cs)
    with split have "ys = c # (cs @ rev (takeWhile cutset (rev ys)))" by simp
    with ys have "\<not> cutset c" by (metis dropWhile_eq_Cons_conv)
    with Cons show ?thesis by simp
  qed
qed

lemma Trim_idem: "Trim (Trim s) = Trim s"
proof -
  have "Trim (Trim s) = rev (dropWhile cutset (rev (Trim s)))"
    unfolding Trim_def [of "Trim s"] Trim_no_lead ..
  also have "\<dots> = Trim s"
    by (simp add: Trim_def)
  finally show ?thesis .
qed

lemma Trim_sublist: "set (Trim s) \<subseteq> set s" "length (Trim s) \<le> length s"
proof -
  have "set (Trim s) = set (dropWhile cutset (rev (dropWhile cutset s)))"
    by (simp add: Trim_def)
  also have "\<dots> \<subseteq> set (rev (dropWhile cutset s))" by (rule set_dropWhileD [THEN subsetI])
  also have "\<dots> \<subseteq> set s" using set_dropWhileD by fastforce
  finally show "set (Trim s) \<subseteq> set s" .
  have "length (Trim s) \<le> length (dropWhile cutset s)"
    using length_dropWhile_le [of cutset "rev (dropWhile cutset s)"] by (simp add: Trim_def)
  also have "\<dots> \<le> length s" by (rule length_dropWhile_le)
  finally show "length (Trim s) \<le> length s" .
qed

lemma Trim_no_trail: "Trim s \<noteq> [] \<Longrightarrow> \<not> cutset (last (Trim s))"
proof -
  assume ne: "Trim s \<noteq> []"
  define zs where "zs = dropWhile cutset (rev (dropWhile cutset s))"
  have t: "Trim s = rev zs" by (simp add: Trim_def zs_def)
  with ne have "zs \<noteq> []" by simp
  then have "\<not> cutset (hd zs)" unfolding zs_def by (rule hd_dropWhile)
  with t \<open>zs \<noteq> []\<close> show ?thesis by (simp add: last_rev)
qed

lemma Trim_no_lead_hd: "Trim s \<noteq> [] \<Longrightarrow> \<not> cutset (hd (Trim s))"
  using Trim_no_lead [of s] hd_dropWhile [of cutset "Trim s"] by simp

lemma ReplaceAllString_clean: "\<forall>c \<in> set (ReplaceAllString s). \<not> reserved c"
  by (auto simp: ReplaceAllString_def reserved_def)

lemma ReplaceAllString_id: "\<forall>c \<in> set s. \<not> reserved c \<Longrightarrow> ReplaceAllString s = s"
  by (induction s) (simp_all add: ReplaceAllString_def)

lemma SanitizeFilename_clean: "\<forall>c \<in> set (SanitizeFilename s). \<not> reserved c"
proof -
  have "set (SanitizeFilename s) \<subseteq> set (ReplaceAllString s)"
    using Trim_sublist(1) [of "ReplaceAllString s"] Trim_sublist(1) [of "take 100 (ReplaceAllString s)"]
      set_take_subset [of 100 "ReplaceAllString s"]
    by (auto simp: SanitizeFilename_def Let_def)
  with ReplaceAllString_clean [of s] show ?thesis by blast
qed

lemma SanitizeFilename_length: "length (SanitizeFilename s) \<le> 100"
proof (cases "length (ReplaceAllString s) > 100")
  case True
  then show ?thesis
    using Trim_sublist(2) [of "take 100 (ReplaceAllString s)"]
    by (simp add: SanitizeFilename_def Let_def)
next
  case False
  then show ?thesis
    using Trim_sublist(2) [of "ReplaceAllString s"]
    by (simp add: SanitizeFilename_def Let_def)
qed

lemma SanitizeFilename_is_Trim: "\<exists>x. SanitizeFilename s = Trim x"
  by (auto simp: SanitizeFilename_def Let_def)

lemma SanitizeFilename_idem: "SanitizeFilename (SanitizeFilename s) = SanitizeFilename s"
proof -
  obtain x where x: "SanitizeFilename s = Trim x"
    using SanitizeFilename_is_Trim by blast
  have r: "ReplaceAllString (SanitizeFilename s) = SanitizeFilename s"
    by (rule ReplaceAllString_id) (rule SanitizeFilename_clean)
  have "SanitizeFilename (SanitizeFilename s) = Trim (SanitizeFilename s)"
    unfolding SanitizeFilename_def [of "SanitizeFilename s"] r
    using SanitizeFilename_length [of s] by (simp add: Let_def)
  then show ?thesis by (simp add: x Trim_idem)
qed

text \<open>
  C8: sanitizing twice gives what sanitizing once gives; the result has at most 100
  bytes, neither starts nor ends with a space or a period, and holds none of the
  reserved characters.
\<close>

theorem SanitizeFilename_idempotent_bounded_clean:
  "SanitizeFilename (SanitizeFilename s) = SanitizeFilename s
   \<and> length (SanitizeFilename s) \<le> 100
   \<and> (SanitizeFilename s \<noteq> [] \<longrightarrow>
        hd (SanitizeFilename s) \<notin> {CHR '' '', CHR ''.''}
        \<and> last (SanitizeFilename s) \<notin> {CHR '' '', CHR ''.''})
   \<and> (\<forall>c \<in> set (SanitizeFilename s).
        c \<notin> {CHR ''<'', CHR ''>'', CHR '':'', CHR 0x22, CHR ''/'', CHR 0x5C,
              CHR ''|'', CHR ''?'', CHR ''*''})"
proof -
  obtain x where x: "SanitizeFilename s = Trim x"
    using SanitizeFilename_is_Trim by blast
  have ends: "SanitizeFilename s \<noteq> [] \<longrightarrow>
        hd (SanitizeFilename s) \<notin> {CHR '' '', CHR ''.''}
        \<and> last (SanitizeFilename s) \<notin> {CHR '' '', CHR ''.''}"
    using Trim_no_lead_hd [of x] Trim_no_trail [of x] by (auto simp: x cutset_def)
  have clean: "\<forall>c \<in> set (SanitizeFilename s).
        c \<notin> {CHR ''<'', CHR ''>'', CHR '':'', CHR 0x22, CHR ''/'', CHR 0x5C,
              CHR ''|'', CHR ''?'', CHR ''*''}"
    using SanitizeFilename_clean [of s] by (simp add: reserved_def)
  from SanitizeFilename_idem SanitizeFilename_length ends clean show ?thesis by blast
qed

theorem SanitizeFilename_idempotent_bounded_clean_witness:
  "SanitizeFilename '' .My Video: Part 1/2 | Q&A?. '' = ''My Video_ Part 1_2 _ Q&A_''
   \<and> SanitizeFilename ''My Video_ Part 1_2 _ Q&A_'' = ''My Video_ Part 1_2 _ Q&A_''
   \<and> SanitizeFilename '' .My Video: Part 1/2 | Q&A?. '' \<noteq> []
   \<and> hd (SanitizeFilename '' .My Video: Part 1/2 | Q&A?. '') = CHR ''M''
   \<and> last (SanitizeFilename '' .My Video: Part 1/2 | Q&A?. '') = CHR ''_''"
  using SanitizeFilename_idempotent_bounded_clean [of "'' .My Video: Part 1/2 | Q&A?. ''"]
  by (simp add: SanitizeFilename_def ReplaceAllString_def reserved_def Trim_def cutset_def)

section \<open>The listing of uploads\<close>

lemma collect_videos_filter:
  "collect_videos m vs acc = acc @ map to_info (filter (long_enough m) vs)"
  by (induction vs arbitrary: acc) (simp_all add: long_enough_def)

lemma loop_body_page:
  assumes page: "PlaylistItems_List svc pl tok = Inr p"
    and details: "page_details svc p = Inr vs"
  shows "loop_body svc pl minD tok videos calls =
           (if NextPageToken p = []
            then Return (Inr (collect_videos minD vs videos),
                         calls @ PlaylistItemsPage pl tok # details_calls p)
            else Continue (NextPageToken p) (collect_videos minD vs videos)
                          (calls @ PlaylistItemsPage pl tok # details_calls p))"
proof (cases "Items p = []")
  case True
  with details have "vs = []" by (simp add: page_details_def)
  with True page show ?thesis
    by (simp add: loop_body_def details_calls_def)
next
  case False
  with details have "Videos_List svc (Join (page_ids p) '','') = Inr vs"
    by (simp add: page_details_def)
  with False page show ?thesis
    by (simp add: loop_body_def details_calls_def page_ids_def Let_def)
qed

lemma loop_body_fails:
  assumes "fetch_fails svc pl tok"
  shows "\<exists>cause calls'.
           loop_body svc pl minD tok videos calls =
             Return (Inl (Wrap ''error retrieving playlist items'' cause), calls')
         \<or> loop_body svc pl minD tok videos calls =
             Return (Inl (Wrap ''error retrieving video statistics'' cause), calls')"
proof (cases "PlaylistItems_List svc pl tok")
  case (Inl err)
  then show ?thesis by (simp add: loop_body_def)
next
  case (Inr p)
  with assms have ne: "Items p \<noteq> []"
    and "isl (Videos_List svc (Join (map Snippet_ResourceId_VideoId (Items p)) '',''))"
    by (simp_all add: fetch_fails_def)
  then obtain err where
    "Videos_List svc (Join (map Snippet_ResourceId_VideoId (Items p)) '','') = Inl err"
    by (auto simp: isl_def)
  with Inr ne show ?thesis by (simp add: loop_body_def Let_def)
qed

lemma list_loop_loop_state:
  "loop_state svc pl minD n (tok, videos, calls) = Some (tok', videos', calls')
     \<Longrightarrow> list_loop svc pl minD tok videos calls = list_loop svc pl minD tok' videos' calls'"
proof (induction n arbitrary: tok videos calls)
  case 0
  then show ?case by simp
next
  case (Suc n)
  show ?case
  proof (cases "loop_body svc pl minD tok videos calls")
    case (Return r)
    with Suc.prems show ?thesis by simp
  next
    case (Continue t v c)
    with Suc.prems have "loop_state svc pl minD n (t, v, c) = Some (tok', videos', calls')"
      by simp
    then have "list_loop svc pl minD t v c = list_loop svc pl minD tok' videos' calls'"
      by (rule Suc.IH)
    with Continue show ?thesis
      by (subst list_loop.simps) simp
  qed
qed

lemma ListVideos_resolved:
  assumes "channelID = [] \<Longrightarrow> getAuthenticatedChannelID svc = Inr cid"
    and "channelID \<noteq> [] \<Longrightarrow> cid = channelID"
    and "getUploadsPlaylistID svc cid = Inr pl"
  shows "ListVideos svc channelID minD = list_loop svc pl minD [] [] (lookup_calls channelID cid)"
  using assms by (cases "channelID = []") (simp_all add: ListVideos_def lookup_calls_def)

lemma map_VideoID_to_info: "map VideoID (map to_info vs) = map Video_Id vs"
  by (induction vs) (simp_all add: to_info_def)

lemma loop_body_videos:
  "loop_body svc pl minD tok videos calls = Return (Inr res, calls') \<Longrightarrow> \<exists>more. res = videos @ more"
  "loop_body svc pl minD tok videos calls = Continue tok' videos' calls' \<Longrightarrow> \<exists>more. videos' = videos @ more"
  by (auto simp: loop_body_def Let_def collect_videos_filter split: sum.splits if_splits)

lemma list_loop_extends_aux:
  assumes "list_loop svc pl minD tok videos calls = Some r"
  shows "\<forall>res calls'. r = (Inr res, calls') \<longrightarrow> (\<exists>more. res = videos @ more)"
proof (rule list_loop.raw_induct
    [where P = "\<lambda>svc pl minD tok videos calls r.
                  \<forall>res calls'. r = (Inr res, calls') \<longrightarrow> (\<exists>more. res = videos @ more)",
     OF _ assms], goal_cases)
  case (1 loop svc pl minD tok videos calls r)
  show ?case
  proof (cases "loop_body svc pl minD tok videos calls")
    case (Return r')
    with 1(2) have "r = r'" by simp
    with Return show ?thesis by (auto dest: loop_body_videos(1))
  next
    case (Continue t v c)
    with 1(2) have next_run: "loop svc pl minD t v c = Some r" by simp
    have "\<forall>res calls'. r = (Inr res, calls') \<longrightarrow> (\<exists>more. res = v @ more)"
      using 1(1) [OF next_run] .
    moreover from Continue obtain m where "v = videos @ m"
      by (auto dest: loop_body_videos(2))
    ultimately show ?thesis by auto
  qed
qed

lemma list_loop_extends:
  "list_loop svc pl minD tok videos calls = Some (Inr res, calls') \<Longrightarrow> \<exists>more. res = videos @ more"
  using list_loop_extends_aux by blast

lemmas demo_defs =
  two_page_service_def demo_channel_def demo_video_def demo_page1_def demo_page2_def
  demo_videos1_def demo_videos2_def

lemmas duration_defs =
  isShort_def ParseDuration_def parse_groups.simps is_digit_def word_sless_alt

lemma two_page_service_run:
  "ListVideos two_page_service ''UC1'' 60 =
     Some (Inr [to_info (demo_video ''a'' ''PT10M''), to_info (demo_video ''c'' ''PT1M'')],
           [ChannelsById ''UC1'', PlaylistItemsPage ''UU1'' [], VideosById ''a,b'',
            PlaylistItemsPage ''UU1'' ''t2'', VideosById ''c''])"
  by (simp add: ListVideos_def getUploadsPlaylistID_def demo_defs
        list_loop.simps loop_body_def duration_defs)

subsection \<open>Two pages\<close>

text \<open>
  C2, as the code has it. When the lookups of the channel and of its uploads playlist
  succeed, the first page comes with a cursor and the page fetched with that cursor comes
  without one, \<open>ListVideos\<close> fetches exactly these two pages, in this order, and returns
  the summaries of the videos that the detail calls of the two pages return, in order,
  without the videos shorter than the threshold. These are \<open>N + M\<close> summaries with the
  identifiers of the listed items when the detail calls return one video for each listed
  item and none of them is shorter than the threshold; no identifier occurs twice when none
  occurs twice among the detailed videos.
\<close>

theorem ListVideos_two_pages:
  assumes "channelID = [] \<Longrightarrow> getAuthenticatedChannelID svc = Inr cid"
    and "channelID \<noteq> [] \<Longrightarrow> cid = channelID"
    and "getUploadsPlaylistID svc cid = Inr pl"
    and page1: "PlaylistItems_List svc pl [] = Inr p1" and more: "NextPageToken p1 \<noteq> []"
    and page2: "PlaylistItems_List svc pl (NextPageToken p1) = Inr p2"
    and last: "NextPageToken p2 = []"
    and details1: "page_details svc p1 = Inr vs1"
    and details2: "page_details svc p2 = Inr vs2"
  shows "\<exists>videos calls. ListVideos svc channelID minD = Some (Inr videos, calls)
           \<and> videos = map to_info (filter (long_enough minD) (vs1 @ vs2))
           \<and> calls = lookup_calls channelID cid
                       @ PlaylistItemsPage pl [] # details_calls p1
                       @ PlaylistItemsPage pl (NextPageToken p1) # details_calls p2
           \<and> filter is_page_call calls =
               [PlaylistItemsPage pl [], PlaylistItemsPage pl (NextPageToken p1)]
           \<and> (map Video_Id vs1 = page_ids p1 \<and> map Video_Id vs2 = page_ids p2
                \<and> list_all (long_enough minD) (vs1 @ vs2)
                \<longrightarrow> length videos = length (Items p1) + length (Items p2)
                    \<and> map VideoID videos = page_ids p1 @ page_ids p2)
           \<and> (distinct (map Video_Id (vs1 @ vs2)) \<longrightarrow> distinct (map VideoID videos))"
proof -
  define calls0 where "calls0 = lookup_calls channelID cid"
  define calls1 where "calls1 = calls0 @ PlaylistItemsPage pl [] # details_calls p1"
  define calls2 where "calls2 = calls1 @ PlaylistItemsPage pl (NextPageToken p1) # details_calls p2"
  define videos1 where "videos1 = map to_info (filter (long_enough minD) vs1)"
  define videos where "videos = map to_info (filter (long_enough minD) (vs1 @ vs2))"
  have keep1: "collect_videos minD vs1 [] = videos1"
    by (simp add: collect_videos_filter videos1_def)
  have keep2: "collect_videos minD vs2 videos1 = videos"
    by (simp add: collect_videos_filter videos1_def videos_def)
  have step1: "loop_body svc pl minD [] [] calls0 = Continue (NextPageToken p1) videos1 calls1"
    using loop_body_page [OF page1 details1, of minD "[]" calls0] more
    by (simp add: keep1 calls1_def)
  have step2: "loop_body svc pl minD (NextPageToken p1) videos1 calls1 = Return (Inr videos, calls2)"
    using loop_body_page [OF page2 details2, of minD videos1 calls1] last
    by (simp add: keep2 calls2_def)
  have "list_loop svc pl minD [] [] calls0 = list_loop svc pl minD (NextPageToken p1) videos1 calls1"
    by (subst list_loop.simps) (simp add: step1)
  also have "\<dots> = Some (Inr videos, calls2)"
    by (subst list_loop.simps) (simp add: step2)
  finally have run: "ListVideos svc channelID minD = Some (Inr videos, calls2)"
    using ListVideos_resolved [OF assms(1,2,3), of minD] by (simp add: calls0_def)
  have calls: "calls2 = lookup_calls channelID cid
                       @ PlaylistItemsPage pl [] # details_calls p1
                       @ PlaylistItemsPage pl (NextPageToken p1) # details_calls p2"
    by (simp add: calls2_def calls1_def calls0_def)
  have pages: "filter is_page_call calls2 =
               [PlaylistItemsPage pl [], PlaylistItemsPage pl (NextPageToken p1)]"
    by (simp add: calls2_def calls1_def calls0_def lookup_calls_def details_calls_def)
  have full: "length videos = length (Items p1) + length (Items p2)
                \<and> map VideoID videos = page_ids p1 @ page_ids p2"
    if ids1: "map Video_Id vs1 = page_ids p1" and ids2: "map Video_Id vs2 = page_ids p2"
      and long: "list_all (long_enough minD) (vs1 @ vs2)"
  proof -
    from long have all: "filter (long_enough minD) (vs1 @ vs2) = vs1 @ vs2"
      by (simp add: list_all_iff)
    have "length vs1 = length (Items p1)" "length vs2 = length (Items p2)"
      using arg_cong [OF ids1, of length] arg_cong [OF ids2, of length]
      by (simp_all add: page_ids_def)
    moreover have "map VideoID videos = page_ids p1 @ page_ids p2"
      unfolding videos_def all map_VideoID_to_info using ids1 ids2 by simp
    ultimately show ?thesis
      unfolding videos_def all by simp
  qed
  have dist: "distinct (map VideoID videos)" if "distinct (map Video_Id (vs1 @ vs2))"
  proof -
    have "map VideoID videos = map Video_Id (filter (long_enough minD) (vs1 @ vs2))"
      unfolding videos_def by (rule map_VideoID_to_info)
    with that show ?thesis
      by (simp only: distinct_map_filter)
  qed
  from run calls pages full dist show ?thesis
    unfolding videos_def [symmetric] by blast
qed

theorem ListVideos_two_pages_witness:
  "(\<exists>videos calls. ListVideos two_page_service ''UC1'' 30 = Some (Inr videos, calls)
      \<and> length videos = 2 + 1
      \<and> map VideoID videos = [''a'', ''b'', ''c'']
      \<and> distinct (map VideoID videos)
      \<and> filter is_page_call calls = [PlaylistItemsPage ''UU1'' [], PlaylistItemsPage ''UU1'' ''t2''])
   \<and> (\<exists>videos calls. ListVideos two_page_service ''UC1'' 60 = Some (Inr videos, calls)
      \<and> map VideoID videos = [''a'', ''c'']
      \<and> calls = [ChannelsById ''UC1'', PlaylistItemsPage ''UU1'' [], VideosById ''a,b'',
                 PlaylistItemsPage ''UU1'' ''t2'', VideosById ''c''])"
proof -
  have pre: "getUploadsPlaylistID two_page_service ''UC1'' = Inr ''UU1''"
    "PlaylistItems_List two_page_service ''UU1'' [] = Inr demo_page1"
    "NextPageToken demo_page1 \<noteq> []"
    "PlaylistItems_List two_page_service ''UU1'' (NextPageToken demo_page1) = Inr demo_page2"
    "NextPageToken demo_page2 = []"
    "page_details two_page_service demo_page1 = Inr demo_videos1"
    "page_details two_page_service demo_page2 = Inr demo_videos2"
    by (simp_all add: demo_defs getUploadsPlaylistID_def page_details_def page_ids_def)
  have facts: "map Video_Id demo_videos1 = page_ids demo_page1"
    "map Video_Id demo_videos2 = page_ids demo_page2"
    "list_all (long_enough 30) (demo_videos1 @ demo_videos2)"
    "distinct (map Video_Id (demo_videos1 @ demo_videos2))"
    "filter (long_enough 60) demo_videos1 = [demo_video ''a'' ''PT10M'']"
    "filter (long_enough 60) demo_videos2 = [demo_video ''c'' ''PT1M'']"
    "page_ids demo_page1 = [''a'', ''b'']" "page_ids demo_page2 = [''c'']"
    "length (Items demo_page1) = 2" "length (Items demo_page2) = 1"
    "NextPageToken demo_page1 = ''t2''"
    "details_calls demo_page1 = [VideosById ''a,b'']"
    "details_calls demo_page2 = [VideosById ''c'']"
    "lookup_calls ''UC1'' ''UC1'' = [ChannelsById ''UC1'']"
    by (simp_all add: demo_defs page_ids_def long_enough_def duration_defs details_calls_def
          lookup_calls_def)
  have ids: "VideoID (to_info (demo_video ''a'' ''PT10M'')) = ''a''"
    "VideoID (to_info (demo_video ''c'' ''PT1M'')) = ''c''"
    by (simp_all add: demo_video_def to_info_def)
  from ListVideos_two_pages [where channelID = "''UC1''" and cid = "''UC1''" and minD = 30,
      OF _ _ pre] facts
  have a: "\<exists>videos calls. ListVideos two_page_service ''UC1'' 30 = Some (Inr videos, calls)
      \<and> length videos = 2 + 1
      \<and> map VideoID videos = [''a'', ''b'', ''c'']
      \<and> distinct (map VideoID videos)
      \<and> filter is_page_call calls = [PlaylistItemsPage ''UU1'' [], PlaylistItemsPage ''UU1'' ''t2'']"
    by simp
  from ListVideos_two_pages [where channelID = "''UC1''" and cid = "''UC1''" and minD = 60,
      OF _ _ pre] facts
  have b: "\<exists>videos calls. ListVideos two_page_service ''UC1'' 60 = Some (Inr videos, calls)
      \<and> map VideoID videos = [''a'', ''c'']
      \<and> calls = [ChannelsById ''UC1'', PlaylistItemsPage ''UU1'' [], VideosById ''a,b'',
                 PlaylistItemsPage ''UU1'' ''t2'', VideosById ''c'']"
    by (simp add: ids)
  from a b show ?thesis by blast
qed

text \<open>
  The claim as the specification words it asks for \<open>N + M\<close> summaries for every two-page
  listing. With the threshold 60 the example channel has pages of two and one items, and
  the result has two summaries: the video of 30 seconds is left out.
\<close>

theorem ListVideos_two_pages_counterexample:
  "PlaylistItems_List two_page_service ''UU1'' [] = Inr demo_page1
   \<and> length (Items demo_page1) = 2 \<and> NextPageToken demo_page1 = ''t2''
   \<and> PlaylistItems_List two_page_service ''UU1'' ''t2'' = Inr demo_page2
   \<and> length (Items demo_page2) = 1 \<and> NextPageToken demo_page2 = []
   \<and> (\<exists>videos calls. ListVideos two_page_service ''UC1'' 60 = Some (Inr videos, calls)
        \<and> length videos = 2 \<and> length videos \<noteq> 2 + 1)"
  by (simp add: two_page_service_run) (simp add: two_page_service_def demo_page1_def demo_page2_def)

subsection \<open>No uploads\<close>

text \<open>
  C10: when the lookups of the channel and of its uploads playlist succeed and the first
  page has no items and no cursor, \<open>ListVideos\<close> returns the empty sequence and no error,
  after the lookups and one page call; it makes no detail call.
\<close>

theorem ListVideos_empty_listing:
  assumes "channelID = [] \<Longrightarrow> getAuthenticatedChannelID svc = Inr cid"
    and "channelID \<noteq> [] \<Longrightarrow> cid = channelID"
    and "getUploadsPlaylistID svc cid = Inr pl"
    and "PlaylistItems_List svc pl [] = Inr p" "Items p = []" "NextPageToken p = []"
  shows "\<exists>calls. ListVideos svc channelID minD = Some (Inr [], calls)
           \<and> calls = lookup_calls channelID cid @ [PlaylistItemsPage pl []]
           \<and> filter is_videos_call calls = []
           \<and> filter is_page_call calls = [PlaylistItemsPage pl []]"
proof -
  have "page_details svc p = Inr []"
    using assms(5) by (simp add: page_details_def)
  from loop_body_page [OF assms(4) this, of minD "[]" "lookup_calls channelID cid"] assms(5,6)
  have "loop_body svc pl minD [] [] (lookup_calls channelID cid) =
          Return (Inr [], lookup_calls channelID cid @ [PlaylistItemsPage pl []])"
    by (simp add: details_calls_def)
  moreover have "ListVideos svc channelID minD =
          list_loop svc pl minD [] [] (lookup_calls channelID cid)"
    using assms(1,2,3) by (rule ListVideos_resolved)
  ultimately have "ListVideos svc channelID minD =
          Some (Inr [], lookup_calls channelID cid @ [PlaylistItemsPage pl []])"
    by (simp add: list_loop.simps)
  then show ?thesis by (simp add: lookup_calls_def)
qed

theorem ListVideos_empty_listing_witness:
  "\<exists>calls. ListVideos empty_service ''UC1'' 60 = Some (Inr [], calls)
           \<and> calls = [ChannelsById ''UC1'', PlaylistItemsPage ''UU1'' []]
           \<and> filter is_videos_call calls = []
           \<and> filter is_page_call calls = [PlaylistItemsPage ''UU1'' []]"
proof -
  have "\<exists>calls. ListVideos empty_service ''UC1'' 60 = Some (Inr [], calls)
           \<and> calls = lookup_calls ''UC1'' ''UC1'' @ [PlaylistItemsPage ''UU1'' []]
           \<and> filter is_videos_call calls = []
           \<and> filter is_page_call calls = [PlaylistItemsPage ''UU1'' []]"
    by (rule ListVideos_empty_listing [where cid = "''UC1''" and p = "\<lparr>Items = [], NextPageToken = []\<rparr>"])
     (simp_all add: empty_service_def two_page_service_def demo_channel_def
        getUploadsPlaylistID_def)
  then show ?thesis by (simp add: lookup_calls_def)
qed

subsection \<open>A failing fetch\<close>

text \<open>
  C5: when the lookups succeed and the loop reaches a pass whose page call fails, or whose
  detail call fails, \<open>ListVideos\<close> returns an error that wraps the cause, and no
  summaries: whatever the earlier passes collected is dropped.
\<close>

theorem ListVideos_fetch_error:
  assumes "channelID = [] \<Longrightarrow> getAuthenticatedChannelID svc = Inr cid"
    and "channelID \<noteq> [] \<Longrightarrow> cid = channelID"
    and "getUploadsPlaylistID svc cid = Inr pl"
    and reached: "loop_state svc pl minD n ([], [], lookup_calls channelID cid)
                    = Some (tok, videos, calls)"
    and fails: "fetch_fails svc pl tok"
  shows "\<exists>cause calls'.
           ListVideos svc channelID minD =
             Some (Inl (Wrap ''error retrieving playlist items'' cause), calls')
         \<or> ListVideos svc channelID minD =
             Some (Inl (Wrap ''error retrieving video statistics'' cause), calls')"
proof -
  have "ListVideos svc channelID minD = list_loop svc pl minD [] [] (lookup_calls channelID cid)"
    using assms(1,2,3) by (rule ListVideos_resolved)
  also have "\<dots> = list_loop svc pl minD tok videos calls"
    using reached by (rule list_loop_loop_state)
  finally have run: "ListVideos svc channelID minD = list_loop svc pl minD tok videos calls" .
  from loop_body_fails [OF fails, of minD videos calls]
  obtain cause calls' where
    "loop_body svc pl minD tok videos calls =
       Return (Inl (Wrap ''error retrieving playlist items'' cause), calls')
     \<or> loop_body svc pl minD tok videos calls =
       Return (Inl (Wrap ''error retrieving video statistics'' cause), calls')"
    by blast
  then have "list_loop svc pl minD tok videos calls =
       Some (Inl (Wrap ''error retrieving playlist items'' cause), calls')
     \<or> list_loop svc pl minD tok videos calls =
       Some (Inl (Wrap ''error retrieving video statistics'' cause), calls')"
    by (subst (1 2) list_loop.simps) auto
  with run show ?thesis by auto
qed

theorem ListVideos_fetch_error_witness:
  "loop_state broken_service ''UU1'' 60 (Suc 0) ([], [], lookup_calls ''UC1'' ''UC1'')
     = Some (''t2'', [to_info (demo_video ''a'' ''PT10M'')],
             [ChannelsById ''UC1'', PlaylistItemsPage ''UU1'' [], VideosById ''a,b''])
   \<and> fetch_fails broken_service ''UU1'' ''t2''
   \<and> (\<exists>cause calls'.
           ListVideos broken_service ''UC1'' 60 =
             Some (Inl (Wrap ''error retrieving playlist items'' cause), calls')
         \<or> ListVideos broken_service ''UC1'' 60 =
             Some (Inl (Wrap ''error retrieving video statistics'' cause), calls'))"
proof -
  have reached: "loop_state broken_service ''UU1'' 60 (Suc 0) ([], [], lookup_calls ''UC1'' ''UC1'')
     = Some (''t2'', [to_info (demo_video ''a'' ''PT10M'')],
             [ChannelsById ''UC1'', PlaylistItemsPage ''UU1'' [], VideosById ''a,b''])"
    by (simp add: broken_service_def demo_defs lookup_calls_def loop_body_def duration_defs)
  have fails: "fetch_fails broken_service ''UU1'' ''t2''"
    by (simp add: fetch_fails_def broken_service_def demo_defs)
  have resolved: "getUploadsPlaylistID broken_service ''UC1'' = Inr ''UU1''"
    by (simp add: getUploadsPlaylistID_def broken_service_def demo_defs)
  from ListVideos_fetch_error [where channelID = "''UC1''" and cid = "''UC1''",
      OF _ _ resolved reached fails] reached fails
  show ?thesis by simp
qed

subsection \<open>The threshold\<close>

text \<open>
  C6: \<open>isShort d m\<close> holds exactly when the parsed duration of \<open>d\<close> is less than
  \<open>m\<close>. At the threshold 60 a parsed duration of 60 is not short, 59 and 0 are. A video
  whose parsed duration equals the threshold is kept by the pass that gets it, and is in the
  result of every run of \<open>ListVideos\<close> that gets it from a detail call and returns
  summaries.
\<close>

theorem isShort_strict:
  "(isShort d m \<longleftrightarrow> sint (ParseDuration d) < sint m)
   \<and> (sint (ParseDuration d) = 60 \<longrightarrow> \<not> isShort d 60)
   \<and> (sint (ParseDuration d) = 59 \<longrightarrow> isShort d 60)
   \<and> (sint (ParseDuration d) = 0 \<longrightarrow> isShort d 60)
   \<and> (v \<in> set items \<and> ParseDuration (ContentDetails_Duration v) = m
        \<longrightarrow> to_info v \<in> set (collect_videos m items videos))
   \<and> ((channelID = [] \<longrightarrow> getAuthenticatedChannelID svc = Inr cid)
        \<and> (channelID \<noteq> [] \<longrightarrow> cid = channelID)
        \<and> getUploadsPlaylistID svc cid = Inr pl
        \<and> loop_state svc pl m n ([], [], lookup_calls channelID cid) = Some (tok, videos, calls)
        \<and> PlaylistItems_List svc pl tok = Inr p
        \<and> page_details svc p = Inr items
        \<and> v \<in> set items \<and> ParseDuration (ContentDetails_Duration v) = m
        \<and> ListVideos svc channelID m = Some (Inr res, calls')
        \<longrightarrow> to_info v \<in> set res)"
proof -
  have a: "isShort d m \<longleftrightarrow> sint (ParseDuration d) < sint m" for d m
    by (simp add: isShort_def word_sless_alt)
  have b: "v \<in> set items \<and> ParseDuration (ContentDetails_Duration v) = m
        \<longrightarrow> to_info v \<in> set (collect_videos m items videos)" for videos
    by (auto simp: collect_videos_filter long_enough_def a)
  have c: "to_info v \<in> set res"
    if res: "channelID = [] \<longrightarrow> getAuthenticatedChannelID svc = Inr cid"
      "channelID \<noteq> [] \<longrightarrow> cid = channelID" "getUploadsPlaylistID svc cid = Inr pl"
    and reached: "loop_state svc pl m n ([], [], lookup_calls channelID cid) = Some (tok, videos, calls)"
    and page: "PlaylistItems_List svc pl tok = Inr p" "page_details svc p = Inr items"
    and v: "v \<in> set items" "ParseDuration (ContentDetails_Duration v) = m"
    and run: "ListVideos svc channelID m = Some (Inr res, calls')"
  proof -
    have "ListVideos svc channelID m = list_loop svc pl m [] [] (lookup_calls channelID cid)"
      using res by (intro ListVideos_resolved) auto
    also have "\<dots> = list_loop svc pl m tok videos calls"
      using reached by (rule list_loop_loop_state)
    finally have run': "list_loop svc pl m tok videos calls = Some (Inr res, calls')"
      using run by simp
    have body: "loop_body svc pl m tok videos calls =
           (if NextPageToken p = []
            then Return (Inr (collect_videos m items videos),
                         calls @ PlaylistItemsPage pl tok # details_calls p)
            else Continue (NextPageToken p) (collect_videos m items videos)
                          (calls @ PlaylistItemsPage pl tok # details_calls p))"
      using page by (rule loop_body_page)
    from v b have kept: "to_info v \<in> set (collect_videos m items videos)" by blast
    show ?thesis
    proof (cases "NextPageToken p = []")
      case True
      with run' body have "res = collect_videos m items videos"
        by (subst (asm) list_loop.simps) simp
      with kept show ?thesis by simp
    next
      case False
      with run' body have "list_loop svc pl m (NextPageToken p) (collect_videos m items videos)
              (calls @ PlaylistItemsPage pl tok # details_calls p) = Some (Inr res, calls')"
        by (subst (asm) list_loop.simps) simp
      then obtain more where "res = collect_videos m items videos @ more"
        using list_loop_extends by blast
      with kept show ?thesis by simp
    qed
  qed
  from a [of d m] a [of d 60] b [of videos] c show ?thesis
    by simp
qed

theorem isShort_strict_witness:
  "sint (ParseDuration ''PT60S'') = 60 \<and> \<not> isShort ''PT60S'' 60
   \<and> sint (ParseDuration ''PT59S'') = 59 \<and> isShort ''PT59S'' 60
   \<and> sint (ParseDuration ''PT0S'') = 0 \<and> isShort ''PT0S'' 60
   \<and> demo_video ''c'' ''PT1M'' \<in> set demo_videos2
   \<and> ParseDuration (ContentDetails_Duration (demo_video ''c'' ''PT1M'')) = 60
   \<and> to_info (demo_video ''c'' ''PT1M'') \<in> set (collect_videos 60 demo_videos2 [])
   \<and> loop_state two_page_service ''UU1'' 60 (Suc 0) ([], [], lookup_calls ''UC1'' ''UC1'') =
        Some (''t2'', [to_info (demo_video ''a'' ''PT10M'')],
              [ChannelsById ''UC1'', PlaylistItemsPage ''UU1'' [], VideosById ''a,b''])
   \<and> ListVideos two_page_service ''UC1'' 60 =
        Some (Inr [to_info (demo_video ''a'' ''PT10M''), to_info (demo_video ''c'' ''PT1M'')],
              [ChannelsById ''UC1'', PlaylistItemsPage ''UU1'' [], VideosById ''a,b'',
               PlaylistItemsPage ''UU1'' ''t2'', VideosById ''c''])
   \<and> to_info (demo_video ''c'' ''PT1M'')
        \<in> set [to_info (demo_video ''a'' ''PT10M''), to_info (demo_video ''c'' ''PT1M'')]"
proof -
  have pd: "sint (ParseDuration ''PT60S'') = 60" "sint (ParseDuration ''PT59S'') = 59"
    "sint (ParseDuration ''PT0S'') = 0"
    "ParseDuration (ContentDetails_Duration (demo_video ''c'' ''PT1M'')) = 60"
    by (simp_all add: demo_video_def ParseDuration_def parse_groups.simps is_digit_def)
  have mem: "demo_video ''c'' ''PT1M'' \<in> set demo_videos2"
    by (simp add: demo_videos2_def)
  have reached: "loop_state two_page_service ''UU1'' 60 (Suc 0) ([], [], lookup_calls ''UC1'' ''UC1'') =
        Some (''t2'', [to_info (demo_video ''a'' ''PT10M'')],
              [ChannelsById ''UC1'', PlaylistItemsPage ''UU1'' [], VideosById ''a,b''])"
    by (simp add: demo_defs lookup_calls_def loop_body_def duration_defs)
  note run = two_page_service_run
  have page: "getUploadsPlaylistID two_page_service ''UC1'' = Inr ''UU1''"
    "PlaylistItems_List two_page_service ''UU1'' ''t2'' = Inr demo_page2"
    "page_details two_page_service demo_page2 = Inr demo_videos2"
    by (simp_all add: getUploadsPlaylistID_def demo_defs page_ids_def page_details_def)
  from isShort_strict [of "''PT60S''" 60 "demo_video ''c'' ''PT1M''" demo_videos2 "[]"
      "''UC1''" two_page_service "''UC1''" "''UU1''"]
    isShort_strict [of "''PT59S''" 60] isShort_strict [of "''PT0S''" 60]
    pd mem
  have "\<not> isShort ''PT60S'' 60" "isShort ''PT59S'' 60" "isShort ''PT0S'' 60"
    "to_info (demo_video ''c'' ''PT1M'') \<in> set (collect_videos 60 demo_videos2 [])"
    by simp_all
  moreover
  from isShort_strict [where m = 60 and v = "demo_video ''c'' ''PT1M''" and items = demo_videos2
      and channelID = "''UC1''" and svc = two_page_service and cid = "''UC1''" and pl = "''UU1''"
      and n = "Suc 0" and tok = "''t2''" and videos = "[to_info (demo_video ''a'' ''PT10M'')]"
      and calls = "[ChannelsById ''UC1'', PlaylistItemsPage ''UU1'' [], VideosById ''a,b'']"
      and p = demo_page2
      and res = "[to_info (demo_video ''a'' ''PT10M''), to_info (demo_video ''c'' ''PT1M'')]"
      and calls' = "[ChannelsById ''UC1'', PlaylistItemsPage ''UU1'' [], VideosById ''a,b'',
               PlaylistItemsPage ''UU1'' ''t2'', VideosById ''c'']"]
    pd mem reached run page
  have "to_info (demo_video ''c'' ''PT1M'')
        \<in> set [to_info (demo_video ''a'' ''PT10M''), to_info (demo_video ''c'' ''PT1M'')]"
    by simp
  ultimately show ?thesis using pd mem reached run by simp
qed

section \<open>The credential lifecycle\<close>

lemmas client_defs =
  stored_token_def fresh_token_def demo_world_def demo_env_def denied_env_def readonly_env_def
  silent_env_def renewing_env_def rotating_env_def disk_full_env_def busy_env_def

lemma handler_code: "snd (handler code) = code"
  by (simp add: handler_def)

lemma foldl_serve_served:
  "authCode st \<noteq> None \<Longrightarrow>
     foldl serve st reqs = st\<lparr>blocked := blocked st @ reqs\<rparr>"
  by (induction reqs arbitrary: st) (simp_all add: serve_def handler_code)

lemma listen_Nil: "listen [] = listening"
  by (simp add: listen_def)

lemma listen_Cons:
  "listen (c # rest) = \<lparr>authCode = Some c, deliveries = 1, blocked = rest\<rparr>"
  by (simp add: listen_def listening_def serve_def handler_code foldl_serve_served)

lemma getTokenFromWeb_Cons:
  "requests e = c # rest \<Longrightarrow>
     getTokenFromWeb e w =
       Some (if c = [] then Inl (Err ''authorization failed'')
             else (case Exchange e c of
                     Inl err \<Rightarrow> Inl (Wrap ''unable to retrieve token from web'' err)
                   | Inr tok \<Rightarrow> Inr tok),
             w\<lparr>flows := flows w + 1\<rparr>)"
  by (simp add: getTokenFromWeb_def listen_Cons split: sum.splits)

lemma getTokenFromWeb_Nil: "requests e = [] \<Longrightarrow> getTokenFromWeb e w = None"
  by (simp add: getTokenFromWeb_def listen_Nil listening_def)

lemma saveToken_flows: "flows (snd (saveToken e w path t)) = flows w"
  by (simp add: saveToken_def split: option.splits)

lemma saveToken_ok:
  "MkdirAll e path = None \<Longrightarrow> OpenFile e path = None \<Longrightarrow> Encode e t = None \<Longrightarrow>
     saveToken e w path t =
       (None, w\<lparr>files := (files w)(path \<mapsto> Encoded t), written := written w @ [path]\<rparr>)"
  by (simp add: saveToken_def)

lemma saveToken_not_opened:
  "MkdirAll e path \<noteq> None \<or> OpenFile e path \<noteq> None \<Longrightarrow>
     \<exists>err. saveToken e w path t = (Some err, w)"
  by (auto simp: saveToken_def split: option.splits)

lemma saveToken_not_encoded:
  "MkdirAll e path = None \<Longrightarrow> OpenFile e path = None \<Longrightarrow> Encode e t = Some err \<Longrightarrow>
     saveToken e w path t =
       (Some err, w\<lparr>files := (files w)(path \<mapsto> Undecodable), written := written w @ [path]\<rparr>)"
  by (simp add: saveToken_def)

lemma authorize_and_save_Cons:
  "requests e = c # rest \<Longrightarrow>
     authorize_and_save e w path =
       (if c = [] then Some (Inl (Err ''authorization failed''), w\<lparr>flows := flows w + 1\<rparr>)
        else (case Exchange e c of
                Inl err \<Rightarrow> Some (Inl (Wrap ''unable to retrieve token from web'' err),
                                 w\<lparr>flows := flows w + 1\<rparr>)
              | Inr t \<Rightarrow>
                  (case saveToken e (w\<lparr>flows := flows w + 1\<rparr>) path t of
                     (Some err, w2) \<Rightarrow> Some (Inl err, w2)
                   | (None, w2) \<Rightarrow> Some (Inr (Client t), w2))))"
  by (simp add: authorize_and_save_def getTokenFromWeb_Cons split: sum.splits)

lemma authorize_and_save_Nil: "requests e = [] \<Longrightarrow> authorize_and_save e w path = None"
  by (simp add: authorize_and_save_def getTokenFromWeb_Nil)

lemma authorize_and_save_returns:
  assumes "requests e \<noteq> []"
  shows "\<exists>r w'. authorize_and_save e w path = Some (r, w') \<and> flows w' = flows w + 1"
proof -
  from assms obtain c rest where reqs: "requests e = c # rest"
    by (cases "requests e") auto
  show ?thesis
  proof (cases "c = []")
    case True
    with reqs show ?thesis by (simp add: authorize_and_save_Cons)
  next
    case False
    show ?thesis
    proof (cases "Exchange e c")
      case (Inl err)
      with reqs False show ?thesis by (simp add: authorize_and_save_Cons)
    next
      case (Inr t)
      obtain r' w' where s: "saveToken e (w\<lparr>flows := flows w + 1\<rparr>) path t = (r', w')"
        by (cases "saveToken e (w\<lparr>flows := flows w + 1\<rparr>) path t")
      then have "flows w' = flows w + 1"
        using saveToken_flows [of e "w\<lparr>flows := flows w + 1\<rparr>" path t] by simp
      with reqs False Inr s show ?thesis
        by (cases r') (simp_all add: authorize_and_save_Cons)
    qed
  qed
qed

lemma expired_refresh_failed:
  "tokenFromFile w path = Inr tok \<Longrightarrow> Expiry tok < Now e \<Longrightarrow> TokenSource_Token e tok = Inl err
     \<Longrightarrow> getHTTPClient e w path = authorize_and_save e w path"
  by (simp add: getHTTPClient_def)

subsection \<open>A refresh that fails\<close>

text \<open>
  C3, as the code has it. With a stored token that has expired and a refresh that fails,
  \<open>getHTTPClient\<close> runs the browser authorization, and runs it once whenever it returns;
  it does not return when no request reaches the listener. When the first request carries a
  code, the exchange of the code gives a token and the token file is written, the file holds
  that token and the client is bound to it. When the first request carries no code or the
  exchange fails, the result is an error and nothing is written. When the directory or the
  file cannot be opened the result is an error and the file is as it was; when the encoding
  fails the result is that error and the file no longer decodes.
\<close>

theorem getHTTPClient_reauthorizes:
  assumes "tokenFromFile w path = Inr tok" "Expiry tok < Now e"
    and "TokenSource_Token e tok = Inl err"
  shows "(requests e = [] \<longrightarrow> getHTTPClient e w path = None)
    \<and> (requests e \<noteq> []
        \<longrightarrow> (\<exists>r w'. getHTTPClient e w path = Some (r, w') \<and> flows w' = flows w + 1))
    \<and> (requests e = c # rest \<and> c \<noteq> [] \<and> Exchange e c = Inr t
         \<and> MkdirAll e path = None \<and> OpenFile e path = None \<and> Encode e t = None
        \<longrightarrow> getHTTPClient e w path =
              Some (Inr (Client t),
                    w\<lparr>flows := flows w + 1, files := (files w)(path \<mapsto> Encoded t),
                      written := written w @ [path]\<rparr>))
    \<and> (requests e = c # rest \<and> (c = [] \<or> isl (Exchange e c))
        \<longrightarrow> (\<exists>err'. getHTTPClient e w path = Some (Inl err', w\<lparr>flows := flows w + 1\<rparr>)))
    \<and> (requests e = c # rest \<and> c \<noteq> [] \<and> Exchange e c = Inr t
         \<and> (MkdirAll e path \<noteq> None \<or> OpenFile e path \<noteq> None)
        \<longrightarrow> (\<exists>err'. getHTTPClient e w path = Some (Inl err', w\<lparr>flows := flows w + 1\<rparr>)))
    \<and> (requests e = c # rest \<and> c \<noteq> [] \<and> Exchange e c = Inr t
         \<and> MkdirAll e path = None \<and> OpenFile e path = None \<and> Encode e t = Some err'
        \<longrightarrow> getHTTPClient e w path =
              Some (Inl err',
                    w\<lparr>flows := flows w + 1, files := (files w)(path \<mapsto> Undecodable),
                      written := written w @ [path]\<rparr>))"
proof -
  have run: "getHTTPClient e w path = authorize_and_save e w path"
    using assms by (rule expired_refresh_failed)
  have a: "requests e = [] \<longrightarrow> getHTTPClient e w path = None"
    by (simp add: run authorize_and_save_Nil)
  have b: "requests e \<noteq> []
        \<longrightarrow> (\<exists>r w'. getHTTPClient e w path = Some (r, w') \<and> flows w' = flows w + 1)"
    unfolding run using authorize_and_save_returns [of e w path] by blast
  have c: "requests e = c # rest \<and> c \<noteq> [] \<and> Exchange e c = Inr t
         \<and> MkdirAll e path = None \<and> OpenFile e path = None \<and> Encode e t = None
        \<longrightarrow> getHTTPClient e w path =
              Some (Inr (Client t),
                    w\<lparr>flows := flows w + 1, files := (files w)(path \<mapsto> Encoded t),
                      written := written w @ [path]\<rparr>)"
    by (simp add: run authorize_and_save_Cons saveToken_ok)
  have d: "requests e = c # rest \<and> (c = [] \<or> isl (Exchange e c))
        \<longrightarrow> (\<exists>err'. getHTTPClient e w path = Some (Inl err', w\<lparr>flows := flows w + 1\<rparr>))"
    by (auto simp: run authorize_and_save_Cons isl_def)
  have e: "requests e = c # rest \<and> c \<noteq> [] \<and> Exchange e c = Inr t
         \<and> (MkdirAll e path \<noteq> None \<or> OpenFile e path \<noteq> None)
        \<longrightarrow> (\<exists>err'. getHTTPClient e w path = Some (Inl err', w\<lparr>flows := flows w + 1\<rparr>))"
  proof (intro impI, elim conjE)
    assume h: "requests e = c # rest" "c \<noteq> []" "Exchange e c = Inr t"
      "MkdirAll e path \<noteq> None \<or> OpenFile e path \<noteq> None"
    from saveToken_not_opened [OF h(4), of "w\<lparr>flows := flows w + 1\<rparr>" t]
    obtain err' where "saveToken e (w\<lparr>flows := flows w + 1\<rparr>) path t
        = (Some err', w\<lparr>flows := flows w + 1\<rparr>)" by blast
    with h(1,2,3) have "getHTTPClient e w path = Some (Inl err', w\<lparr>flows := flows w + 1\<rparr>)"
      by (simp add: run authorize_and_save_Cons)
    then show "\<exists>err'. getHTTPClient e w path = Some (Inl err', w\<lparr>flows := flows w + 1\<rparr>)" ..
  qed
  have f: "requests e = c # rest \<and> c \<noteq> [] \<and> Exchange e c = Inr t
         \<and> MkdirAll e path = None \<and> OpenFile e path = None \<and> Encode e t = Some err'
        \<longrightarrow> getHTTPClient e w path =
              Some (Inl err',
                    w\<lparr>flows := flows w + 1, files := (files w)(path \<mapsto> Undecodable),
                      written := written w @ [path]\<rparr>)"
    by (simp add: run authorize_and_save_Cons saveToken_not_encoded)
  from a b c d e f show ?thesis by blast
qed

theorem getHTTPClient_reauthorizes_witness:
  "getHTTPClient demo_env demo_world ''token.json'' =
     Some (Inr (Client fresh_token),
           demo_world\<lparr>flows := 1, files := [''token.json'' \<mapsto> Encoded fresh_token],
                      written := [''token.json'']\<rparr>)
   \<and> getHTTPClient silent_env demo_world ''token.json'' = None
   \<and> (\<exists>err'. getHTTPClient denied_env demo_world ''token.json'' =
               Some (Inl err', demo_world\<lparr>flows := 1\<rparr>))
   \<and> (\<exists>err'. getHTTPClient readonly_env demo_world ''token.json'' =
               Some (Inl err', demo_world\<lparr>flows := 1\<rparr>))
   \<and> getHTTPClient disk_full_env demo_world ''token.json'' =
       Some (Inl (Err ''no space left on device''),
             demo_world\<lparr>flows := 1, files := [''token.json'' \<mapsto> Undecodable],
                        written := [''token.json'']\<rparr>)"
proof -
  have stored: "tokenFromFile demo_world ''token.json'' = Inr stored_token"
    by (simp add: client_defs tokenFromFile_def)
  have world: "flows demo_world = 0" "written demo_world = []"
    "(files demo_world)(''token.json'' \<mapsto> Encoded fresh_token)
       = [''token.json'' \<mapsto> Encoded fresh_token]"
    "(files demo_world)(''token.json'' \<mapsto> Undecodable) = [''token.json'' \<mapsto> Undecodable]"
    by (simp_all add: client_defs)
  have expired: "Expiry stored_token < Now demo_env" "Expiry stored_token < Now silent_env"
    "Expiry stored_token < Now denied_env" "Expiry stored_token < Now readonly_env"
    "Expiry stored_token < Now disk_full_env"
    by (simp_all add: client_defs)
  have refresh: "TokenSource_Token demo_env stored_token = Inl (Err ''invalid_grant'')"
    "TokenSource_Token silent_env stored_token = Inl (Err ''invalid_grant'')"
    "TokenSource_Token denied_env stored_token = Inl (Err ''invalid_grant'')"
    "TokenSource_Token readonly_env stored_token = Inl (Err ''invalid_grant'')"
    "TokenSource_Token disk_full_env stored_token = Inl (Err ''invalid_grant'')"
    by (simp_all add: client_defs)
  have demo: "requests demo_env = [''ABC'']" "Exchange demo_env ''ABC'' = Inr fresh_token"
    "MkdirAll demo_env ''token.json'' = None" "OpenFile demo_env ''token.json'' = None"
    "Encode demo_env fresh_token = None"
    by (simp_all add: client_defs)
  have silent: "requests silent_env = []"
    by (simp add: client_defs)
  have denied: "requests denied_env = ['''', ''ABC'']"
    by (simp add: client_defs)
  have readonly: "requests readonly_env = [''ABC'']" "Exchange readonly_env ''ABC'' = Inr fresh_token"
    "OpenFile readonly_env ''token.json'' \<noteq> None"
    by (simp_all add: client_defs)
  have disk_full: "requests disk_full_env = [''ABC'']"
    "Exchange disk_full_env ''ABC'' = Inr fresh_token"
    "MkdirAll disk_full_env ''token.json'' = None" "OpenFile disk_full_env ''token.json'' = None"
    "Encode disk_full_env fresh_token = Some (Err ''no space left on device'')"
    by (simp_all add: client_defs)
  have a: "getHTTPClient demo_env demo_world ''token.json'' =
     Some (Inr (Client fresh_token),
           demo_world\<lparr>flows := 1, files := [''token.json'' \<mapsto> Encoded fresh_token],
                      written := [''token.json'']\<rparr>)"
    using getHTTPClient_reauthorizes [OF stored expired(1) refresh(1),
        of "''ABC''" "[]" fresh_token] demo world
    by simp
  have b: "getHTTPClient silent_env demo_world ''token.json'' = None"
    using getHTTPClient_reauthorizes [OF stored expired(2) refresh(2)] silent
    by simp
  have c: "\<exists>err'. getHTTPClient denied_env demo_world ''token.json'' =
               Some (Inl err', demo_world\<lparr>flows := 1\<rparr>)"
    using getHTTPClient_reauthorizes [OF stored expired(3) refresh(3), of "[]" "[''ABC'']"]
      denied world
    by simp
  have d: "\<exists>err'. getHTTPClient readonly_env demo_world ''token.json'' =
               Some (Inl err', demo_world\<lparr>flows := 1\<rparr>)"
    using getHTTPClient_reauthorizes [OF stored expired(4) refresh(4),
        of "''ABC''" "[]" fresh_token] readonly world
    by simp
  have e: "getHTTPClient disk_full_env demo_world ''token.json'' =
       Some (Inl (Err ''no space left on device''),
             demo_world\<lparr>flows := 1, files := [''token.json'' \<mapsto> Undecodable],
                        written := [''token.json'']\<rparr>)"
    using getHTTPClient_reauthorizes [OF stored expired(5) refresh(5),
        of "''ABC''" "[]" fresh_token "Err ''no space left on device''"] disk_full world
    by simp
  from a b c d e show ?thesis by blast
qed

text \<open>
  The claim as the specification words it asks for a persisted token and a client whenever
  the refresh of an expired token fails. When a request without code reaches the listener
  first, the authorization fails; when the authorization gives a token and the token file
  cannot be opened for writing, the token is not persisted. In both runs the result is an
  error, there is no client, and the file holds the expired token.
\<close>

theorem getHTTPClient_reauthorizes_counterexample:
  "tokenFromFile demo_world ''token.json'' = Inr stored_token
   \<and> Expiry stored_token < Now denied_env
   \<and> isl (TokenSource_Token denied_env stored_token)
   \<and> getHTTPClient denied_env demo_world ''token.json'' =
       Some (Inl (Err ''authorization failed''), demo_world\<lparr>flows := 1\<rparr>)
   \<and> Expiry stored_token < Now readonly_env
   \<and> isl (TokenSource_Token readonly_env stored_token)
   \<and> getTokenFromWeb readonly_env demo_world = Some (Inr fresh_token, demo_world\<lparr>flows := 1\<rparr>)
   \<and> getHTTPClient readonly_env demo_world ''token.json'' =
       Some (Inl (Wrap ''unable to cache oauth token'' (Err ''permission denied'')),
             demo_world\<lparr>flows := 1\<rparr>)
   \<and> files (demo_world\<lparr>flows := 1\<rparr>) ''token.json'' = Some (Encoded stored_token)
   \<and> Encoded stored_token \<noteq> Encoded fresh_token"
  by (simp add: client_defs tokenFromFile_def getHTTPClient_def authorize_and_save_def
        getTokenFromWeb_def listen_def listening_def serve_def handler_def saveToken_def)

subsection \<open>A refresh that succeeds\<close>

text \<open>
  C4: with a stored token that has expired and a refresh that succeeds, \<open>getHTTPClient\<close>
  returns a client and changes nothing when the refreshed access token is the stored one.
  When it differs, the refreshed token is written to the token file and the client is bound
  to it; if that write fails the result is an error. No browser authorization runs, and
  whenever anything has changed the access tokens differ.
\<close>

theorem getHTTPClient_refresh:
  assumes "tokenFromFile w path = Inr tok" "Expiry tok < Now e"
    and "TokenSource_Token e tok = Inr newTok"
  shows "(AccessToken newTok = AccessToken tok
            \<longrightarrow> getHTTPClient e w path = Some (Inr (Client tok), w))
    \<and> (AccessToken newTok \<noteq> AccessToken tok
         \<and> MkdirAll e path = None \<and> OpenFile e path = None \<and> Encode e newTok = None
            \<longrightarrow> getHTTPClient e w path =
                  Some (Inr (Client newTok),
                        w\<lparr>files := (files w)(path \<mapsto> Encoded newTok),
                          written := written w @ [path]\<rparr>))
    \<and> (AccessToken newTok \<noteq> AccessToken tok
         \<and> (MkdirAll e path \<noteq> None \<or> OpenFile e path \<noteq> None)
            \<longrightarrow> (\<exists>err'. getHTTPClient e w path = Some (Inl err', w)))
    \<and> (AccessToken newTok \<noteq> AccessToken tok
         \<and> MkdirAll e path = None \<and> OpenFile e path = None \<and> Encode e newTok = Some err'
            \<longrightarrow> getHTTPClient e w path =
                  Some (Inl err',
                        w\<lparr>files := (files w)(path \<mapsto> Undecodable),
                          written := written w @ [path]\<rparr>))
    \<and> (\<exists>r w'. getHTTPClient e w path = Some (r, w') \<and> flows w' = flows w
          \<and> (w' \<noteq> w \<longrightarrow> AccessToken newTok \<noteq> AccessToken tok))"
proof -
  have a: "AccessToken newTok = AccessToken tok
            \<longrightarrow> getHTTPClient e w path = Some (Inr (Client tok), w)"
    using assms by (simp add: getHTTPClient_def)
  have run: "getHTTPClient e w path =
      (case saveToken e w path newTok of
         (Some err, w1) \<Rightarrow> Some (Inl err, w1)
       | (None, w1) \<Rightarrow> Some (Inr (Client newTok), w1))"
    if "AccessToken newTok \<noteq> AccessToken tok"
    using assms that by (simp add: getHTTPClient_def)
  have b: "AccessToken newTok \<noteq> AccessToken tok
         \<and> MkdirAll e path = None \<and> OpenFile e path = None \<and> Encode e newTok = None
            \<longrightarrow> getHTTPClient e w path =
                  Some (Inr (Client newTok),
                        w\<lparr>files := (files w)(path \<mapsto> Encoded newTok),
                          written := written w @ [path]\<rparr>)"
    by (simp add: run saveToken_ok)
  have c: "AccessToken newTok \<noteq> AccessToken tok
         \<and> (MkdirAll e path \<noteq> None \<or> OpenFile e path \<noteq> None)
            \<longrightarrow> (\<exists>err'. getHTTPClient e w path = Some (Inl err', w))"
  proof (intro impI, elim conjE)
    assume h: "AccessToken newTok \<noteq> AccessToken tok"
      "MkdirAll e path \<noteq> None \<or> OpenFile e path \<noteq> None"
    from saveToken_not_opened [OF h(2), of w newTok]
    obtain err' where "saveToken e w path newTok = (Some err', w)" by blast
    then have "getHTTPClient e w path = Some (Inl err', w)"
      by (simp add: run [OF h(1)])
    then show "\<exists>err'. getHTTPClient e w path = Some (Inl err', w)" ..
  qed
  have d: "AccessToken newTok \<noteq> AccessToken tok
         \<and> MkdirAll e path = None \<and> OpenFile e path = None \<and> Encode e newTok = Some err'
            \<longrightarrow> getHTTPClient e w path =
                  Some (Inl err',
                        w\<lparr>files := (files w)(path \<mapsto> Undecodable),
                          written := written w @ [path]\<rparr>)"
    by (simp add: run saveToken_not_encoded)
  have e: "\<exists>r w'. getHTTPClient e w path = Some (r, w') \<and> flows w' = flows w
          \<and> (w' \<noteq> w \<longrightarrow> AccessToken newTok \<noteq> AccessToken tok)"
  proof (cases "AccessToken newTok = AccessToken tok")
    case True
    with a show ?thesis by simp
  next
    case False
    obtain r' w' where s: "saveToken e w path newTok = (r', w')"
      by (cases "saveToken e w path newTok")
    then have "flows w' = flows w" using saveToken_flows [of e w path newTok] by simp
    with s False show ?thesis by (cases r') (simp_all add: run)
  qed
  from a b c d e show ?thesis by blast
qed

theorem getHTTPClient_refresh_witness:
  "getHTTPClient renewing_env demo_world ''token.json'' = Some (Inr (Client stored_token), demo_world)
   \<and> getHTTPClient rotating_env demo_world ''token.json'' =
       Some (Inr (Client fresh_token),
             demo_world\<lparr>files := [''token.json'' \<mapsto> Encoded fresh_token],
                        written := [''token.json'']\<rparr>)
   \<and> (\<exists>err'. getHTTPClient (rotating_env\<lparr>OpenFile := OpenFile readonly_env\<rparr>) demo_world
                ''token.json'' = Some (Inl err', demo_world))
   \<and> getHTTPClient (rotating_env\<lparr>Encode := Encode disk_full_env\<rparr>) demo_world ''token.json'' =
       Some (Inl (Err ''no space left on device''),
             demo_world\<lparr>files := [''token.json'' \<mapsto> Undecodable],
                        written := [''token.json'']\<rparr>)"
proof -
  have stored: "tokenFromFile demo_world ''token.json'' = Inr stored_token"
    by (simp add: client_defs tokenFromFile_def)
  have world: "written demo_world = []"
    "(files demo_world)(''token.json'' \<mapsto> Encoded fresh_token)
       = [''token.json'' \<mapsto> Encoded fresh_token]"
    "(files demo_world)(''token.json'' \<mapsto> Undecodable) = [''token.json'' \<mapsto> Undecodable]"
    by (simp_all add: client_defs)
  have tokens: "AccessToken (stored_token\<lparr>Expiry := 5000\<rparr>) = AccessToken stored_token"
    "AccessToken fresh_token \<noteq> AccessToken stored_token"
    by (simp_all add: client_defs)
  have renewing: "Expiry stored_token < Now renewing_env"
    "TokenSource_Token renewing_env stored_token = Inr (stored_token\<lparr>Expiry := 5000\<rparr>)"
    by (simp_all add: client_defs)
  have rotating: "Expiry stored_token < Now rotating_env"
    "TokenSource_Token rotating_env stored_token = Inr fresh_token"
    "MkdirAll rotating_env ''token.json'' = None" "OpenFile rotating_env ''token.json'' = None"
    "Encode rotating_env fresh_token = None"
    by (simp_all add: client_defs)
  have readonly: "Expiry stored_token < Now (rotating_env\<lparr>OpenFile := OpenFile readonly_env\<rparr>)"
    "TokenSource_Token (rotating_env\<lparr>OpenFile := OpenFile readonly_env\<rparr>) stored_token
       = Inr fresh_token"
    "OpenFile (rotating_env\<lparr>OpenFile := OpenFile readonly_env\<rparr>) ''token.json'' \<noteq> None"
    by (simp_all add: client_defs)
  have disk_full: "Expiry stored_token < Now (rotating_env\<lparr>Encode := Encode disk_full_env\<rparr>)"
    "TokenSource_Token (rotating_env\<lparr>Encode := Encode disk_full_env\<rparr>) stored_token
       = Inr fresh_token"
    "MkdirAll (rotating_env\<lparr>Encode := Encode disk_full_env\<rparr>) ''token.json'' = None"
    "OpenFile (rotating_env\<lparr>Encode := Encode disk_full_env\<rparr>) ''token.json'' = None"
    "Encode (rotating_env\<lparr>Encode := Encode disk_full_env\<rparr>) fresh_token
       = Some (Err ''no space left on device'')"
    by (simp_all add: client_defs)
  have a: "getHTTPClient renewing_env demo_world ''token.json'' =
             Some (Inr (Client stored_token), demo_world)"
    using getHTTPClient_refresh [OF stored renewing] tokens by simp
  have b: "getHTTPClient rotating_env demo_world ''token.json'' =
       Some (Inr (Client fresh_token),
             demo_world\<lparr>files := [''token.json'' \<mapsto> Encoded fresh_token],
                        written := [''token.json'']\<rparr>)"
    using getHTTPClient_refresh [OF stored rotating(1,2)] tokens rotating(3,4,5) world by simp
  have c: "\<exists>err'. getHTTPClient (rotating_env\<lparr>OpenFile := OpenFile readonly_env\<rparr>) demo_world
                ''token.json'' = Some (Inl err', demo_world)"
    using getHTTPClient_refresh [OF stored readonly(1,2)] tokens readonly(3) by simp
  have d: "getHTTPClient (rotating_env\<lparr>Encode := Encode disk_full_env\<rparr>) demo_world ''token.json'' =
       Some (Inl (Err ''no space left on device''),
             demo_world\<lparr>files := [''token.json'' \<mapsto> Undecodable],
                        written := [''token.json'']\<rparr>)"
    using getHTTPClient_refresh [OF stored disk_full(1,2), of "Err ''no space left on device''"]
      tokens disk_full(3,4,5) world by simp
  from a b c d show ?thesis by blast
qed

subsection \<open>The one-shot listener\<close>

text \<open>
  C9, as the code has it. The caller receives what the handler of the first request sends:
  the code of the first request, or the empty string when it has none. There is one
  delivery; every later request only adds a send that waits, and changes neither the
  delivered value nor the number of deliveries. When the first request carries a code,
  \<open>getTokenFromWeb\<close> exchanges that code; when it carries none, the authorization fails,
  whatever follows.
\<close>

theorem listen_one_shot:
  "authCode (listen []) = None \<and> deliveries (listen []) = 0
   \<and> authCode (listen (c # rest)) = Some c
   \<and> deliveries (listen (c # rest)) = 1
   \<and> blocked (listen (c # rest)) = rest
   \<and> authCode (listen ((c # rest) @ later)) = authCode (listen (c # rest))
   \<and> deliveries (listen ((c # rest) @ later)) = deliveries (listen (c # rest))
   \<and> (requests e = c # rest \<and> c \<noteq> []
        \<longrightarrow> getTokenFromWeb e w =
              Some (case Exchange e c of
                      Inl err \<Rightarrow> Inl (Wrap ''unable to retrieve token from web'' err)
                    | Inr tok \<Rightarrow> Inr tok,
                    w\<lparr>flows := flows w + 1\<rparr>))
   \<and> (requests e = [] # rest
        \<longrightarrow> getTokenFromWeb e w = Some (Inl (Err ''authorization failed''), w\<lparr>flows := flows w + 1\<rparr>))"
  by (simp add: listen_Nil listening_def listen_Cons getTokenFromWeb_Cons)

theorem listen_one_shot_witness:
  "authCode (listen [''ABC'', ''XYZ'', ''ABC'']) = Some ''ABC''
   \<and> deliveries (listen [''ABC'', ''XYZ'', ''ABC'']) = 1
   \<and> blocked (listen [''ABC'', ''XYZ'', ''ABC'']) = [''XYZ'', ''ABC'']
   \<and> authCode (listen ([''ABC'', ''XYZ'', ''ABC''] @ [''DEF''])) = Some ''ABC''
   \<and> getTokenFromWeb busy_env demo_world = Some (Inr fresh_token, demo_world\<lparr>flows := 1\<rparr>)
   \<and> getTokenFromWeb denied_env demo_world =
       Some (Inl (Err ''authorization failed''), demo_world\<lparr>flows := 1\<rparr>)"
proof -
  have busy: "requests busy_env = [''ABC'', ''XYZ'', ''ABC'']"
    "Exchange busy_env ''ABC'' = Inr fresh_token"
    by (simp_all add: client_defs)
  have denied: "requests denied_env = ['''', ''ABC'']"
    by (simp add: client_defs)
  have world: "flows demo_world = 0"
    by (simp add: client_defs)
  have a: "authCode (listen [''ABC'', ''XYZ'', ''ABC'']) = Some ''ABC''
     \<and> deliveries (listen [''ABC'', ''XYZ'', ''ABC'']) = 1
     \<and> blocked (listen [''ABC'', ''XYZ'', ''ABC'']) = [''XYZ'', ''ABC'']
     \<and> authCode (listen ([''ABC'', ''XYZ'', ''ABC''] @ [''DEF''])) = Some ''ABC''
     \<and> getTokenFromWeb busy_env demo_world = Some (Inr fresh_token, demo_world\<lparr>flows := 1\<rparr>)"
    using listen_one_shot [of "''ABC''" "[''XYZ'', ''ABC'']" "[''DEF'']" busy_env demo_world]
      busy world
    by simp
  have b: "getTokenFromWeb denied_env demo_world =
       Some (Inl (Err ''authorization failed''), demo_world\<lparr>flows := 1\<rparr>)"
    using listen_one_shot [of "[]" "[''ABC'']" "[]" denied_env demo_world] denied world
    by simp
  from a b show ?thesis by blast
qed

text \<open>
  The claim as the specification words it asks for the code of the first request that
  carries one. When a request without code comes first, the empty string is delivered, the
  request with \<open>code=ABC\<close> behind it only waits, and the authorization fails.
\<close>

theorem listen_one_shot_counterexample:
  "authCode (listen ['''', ''ABC'']) = Some []
   \<and> authCode (listen ['''', ''ABC'']) \<noteq> Some ''ABC''
   \<and> blocked (listen ['''', ''ABC'']) = [''ABC'']
   \<and> requests denied_env = ['''', ''ABC'']
   \<and> getTokenFromWeb denied_env demo_world =
       Some (Inl (Err ''authorization failed''), demo_world\<lparr>flows := 1\<rparr>)"
  by (simp add: client_defs getTokenFromWeb_def listen_def listening_def serve_def handler_def)

end
